theory Spec2Isabelle
  imports Complex_Main "HOL-Library.Sublist"
begin

section \<open>Strings and characters\<close>

text \<open>
  JavaScript strings are modelled as HOL strings. A \<^typ>\<open>char\<close> is one code unit below 256,
  read as the Unicode code point of the same number (ISO-8859-1). Numbers that are IEEE
  doubles in the source (scores, bonuses) are exact rationals here; integers stay integers.
\<close>

definition code :: "char \<Rightarrow> nat" where
  "code c = of_char c"

text \<open>The regular-expression class \<^verbatim>\<open>\w\<close>: \<^verbatim>\<open>[A-Za-z0-9_]\<close>.\<close>

definition isWord :: "char \<Rightarrow> bool" where
  "isWord c \<longleftrightarrow>
     (48 \<le> code c \<and> code c \<le> 57) \<or> (65 \<le> code c \<and> code c \<le> 90) \<or>
     code c = 95 \<or> (97 \<le> code c \<and> code c \<le> 122)"

text \<open>The class \<^verbatim>\<open>\d\<close>: \<^verbatim>\<open>[0-9]\<close>.\<close>

definition isDigit :: "char \<Rightarrow> bool" where
  "isDigit c \<longleftrightarrow> 48 \<le> code c \<and> code c \<le> 57"

text \<open>
  The class \<^verbatim>\<open>\s\<close>, which is also what \<^verbatim>\<open>trim\<close> strips: TAB, LF, VT, FF, CR, space and
  the no-break space U+00A0 (the members below 256).
\<close>

definition isSpace :: "char \<Rightarrow> bool" where
  "isSpace c \<longleftrightarrow> (9 \<le> code c \<and> code c \<le> 13) \<or> code c = 32 \<or> code c = 160"

text \<open>
  \<^verbatim>\<open>String.prototype.toLowerCase\<close> on one code unit: A-Z, and the upper-case letters of
  U+00C0..U+00DE (all but the multiplication sign U+00D7), move up by 32.
\<close>

definition toLowerChar :: "char \<Rightarrow> char" where
  "toLowerChar c =
     (if (65 \<le> code c \<and> code c \<le> 90) \<or> (192 \<le> code c \<and> code c \<le> 222 \<and> code c \<noteq> 215)
      then char_of (code c + 32) else c)"

definition toLowerCase :: "string \<Rightarrow> string" where
  "toLowerCase s = map toLowerChar s"

text \<open>\<^verbatim>\<open>s.includes(p)\<close>: \<open>p\<close> occurs in \<open>s\<close> as a contiguous substring.\<close>

definition includes_str :: "string \<Rightarrow> string \<Rightarrow> bool" where
  "includes_str s p \<longleftrightarrow> sublist p s"

text \<open>\<^verbatim>\<open>s.trim()\<close>.\<close>

definition trim :: "string \<Rightarrow> string" where
  "trim s = rev (dropWhile isSpace (rev (dropWhile isSpace s)))"

text \<open>
  \<^verbatim>\<open>s.split(/\s+/)\<close>: the pieces between maximal runs of whitespace, with an empty piece
  at an end where the string starts or ends with whitespace. The flag says that the
  previous character was whitespace.
\<close>

fun splitWs :: "bool \<Rightarrow> string \<Rightarrow> string list" where
  "splitWs p [] = [[]]"
| "splitWs p (c # cs) =
     (if isSpace c then (if p then splitWs True cs else [] # splitWs True cs)
      else (case splitWs False cs of [] \<Rightarrow> [[c]] | w # ws \<Rightarrow> (c # w) # ws))"

definition split :: "string \<Rightarrow> string list" where
  "split s = splitWs False s"

section \<open>Title normalizer\<close>

text \<open>\<^verbatim>\<open>.replace(/[^\w\s]/g, ' ')\<close>\<close>

definition replaceSpecial :: "string \<Rightarrow> string" where
  "replaceSpecial s = map (\<lambda>c. if isWord c \<or> isSpace c then c else CHR '' '') s"

text \<open>\<^verbatim>\<open>.replace(/\s+/g, ' ')\<close>; the flag says that the previous character was whitespace.\<close>

fun collapseWs :: "bool \<Rightarrow> string \<Rightarrow> string" where
  "collapseWs p [] = []"
| "collapseWs p (c # cs) =
     (if isSpace c then (if p then collapseWs True cs else CHR '' '' # collapseWs True cs)
      else c # collapseWs False cs)"

text \<open>
  The assertion \<^verbatim>\<open>\b\<close> between two neighbouring positions: exactly one side is a word
  character; the outside of the string counts as a non-word character.
\<close>

definition wordAt :: "string \<Rightarrow> bool" where
  "wordAt s = (case s of [] \<Rightarrow> False | c # _ \<Rightarrow> isWord c)"

text \<open>
  The body \<^verbatim>\<open>(19|20)\d{2}\b\<close> matched at the head of \<open>s\<close>: the length of the match.
\<close>

definition matchYear :: "string \<Rightarrow> nat option" where
  "matchYear s =
     (case s of
        a # b # c # d # rest \<Rightarrow>
          if ((a = CHR ''1'' \<and> b = CHR ''9'') \<or> (a = CHR ''2'' \<and> b = CHR ''0''))
             \<and> isDigit c \<and> isDigit d \<and> (isWord d \<noteq> wordAt rest)
          then Some 4 else None
      | _ \<Rightarrow> None)"

text \<open>Case-insensitive match of a literal at the head of \<open>s\<close> (flag \<^verbatim>\<open>i\<close>).\<close>

fun prefixCI :: "string \<Rightarrow> string \<Rightarrow> bool" where
  "prefixCI [] s = True"
| "prefixCI (p # ps) [] = False"
| "prefixCI (p # ps) (c # cs) = (toLowerChar c = toLowerChar p \<and> prefixCI ps cs)"

text \<open>
  The body \<^verbatim>\<open>(w1|w2|...)\b\<close> matched at the head of \<open>s\<close>: the alternatives are tried from
  left to right, each followed by the boundary assertion.
\<close>

definition matchAlt :: "string list \<Rightarrow> string \<Rightarrow> nat option" where
  "matchAlt alts s =
     map_option length
       (find (\<lambda>w. prefixCI w s \<and> (wordAt (drop (length w - 1) s) \<noteq> wordAt (drop (length w) s))) alts)"

text \<open>
  \<^verbatim>\<open>.replace(/\b BODY/g, '')\<close> for a body matcher \<open>m\<close>: a left-to-right scan. \<open>prev\<close> says
  whether the previous character of the subject is a word character, \<open>skip\<close> counts the
  characters of a match still to be dropped.
\<close>

fun removeMatches :: "(string \<Rightarrow> nat option) \<Rightarrow> bool \<Rightarrow> nat \<Rightarrow> string \<Rightarrow> string" where
  "removeMatches m prev skip [] = []"
| "removeMatches m prev (Suc k) (c # cs) = removeMatches m (isWord c) k cs"
| "removeMatches m prev 0 (c # cs) =
     (case (if prev \<noteq> isWord c then m (c # cs) else None) of
        Some (Suc k) \<Rightarrow> removeMatches m (isWord c) k cs
      | _ \<Rightarrow> c # removeMatches m (isWord c) 0 cs)"

definition qualityWords :: "string list" where
  "qualityWords = [''hdtv'', ''1080p'', ''720p'', ''hd'', ''4k'', ''uhd'', ''bluray'', ''webrip'', ''dvdrip'']"

definition languageWords :: "string list" where
  "languageWords = [''dubbed'', ''hindi'', ''english'', ''arabic'', ''french'', ''spanish'']"

definition seriesWords :: "string list" where
  "seriesWords = [''complete'', ''season'', ''series'', ''episode'', ''ep'']"

definition removeYears :: "string \<Rightarrow> string" where
  "removeYears s = removeMatches matchYear False 0 s"

definition removeWords :: "string list \<Rightarrow> string \<Rightarrow> string" where
  "removeWords alts s = removeMatches (matchAlt alts) False 0 s"

definition normalizeTitle :: "string \<Rightarrow> string" where
  "normalizeTitle t =
     (if t = [] then []
      else trim (removeWords seriesWords (removeWords languageWords (removeWords qualityWords
             (removeYears (collapseWs False (replaceSpecial (toLowerCase t))))))))"

section \<open>Similarity scorer\<close>

definition matchingThreshold :: rat where
  "matchingThreshold = 8 / 10"

definition fuzzyMatch :: "string \<Rightarrow> string \<Rightarrow> rat" where
  "fuzzyMatch title1 title2 =
     (let norm1 = normalizeTitle title1;
          norm2 = normalizeTitle title2
      in if norm1 = norm2 then 1
         else
           let words1 = filter (\<lambda>w. length w > 2) (split norm1);
               words2 = filter (\<lambda>w. length w > 2) (split norm2)
           in if length words1 = 0 \<or> length words2 = 0 then 0
              else
                let matches = length (filter (\<lambda>word. word \<in> set words2) words1)
                in of_nat matches / of_nat (max (length words1) (length words2)))"

section \<open>Tag extractor\<close>

definition extractQuality :: "string \<Rightarrow> int \<times> string" where
  "extractQuality t =
     (if t = [] then (0, ''SD'')
      else
        let titleLower = toLowerCase t
        in if includes_str titleLower ''4k'' \<or> includes_str titleLower ''2160p''
              \<or> includes_str titleLower ''uhd'' then (8, ''4K'')
           else if includes_str titleLower ''1080p'' \<or> includes_str titleLower ''fhd''
             then (6, ''1080p'')
           else if includes_str titleLower ''720p'' \<or> includes_str titleLower ''hd''
             then (4, ''720p'')
           else if includes_str titleLower ''480p'' \<or> includes_str titleLower ''sd''
             then (2, ''480p'')
           else (3, ''HD''))"

definition extractSource :: "string \<Rightarrow> int \<times> string" where
  "extractSource t =
     (if t = [] then (0, ''Unknown'')
      else
        let titleLower = toLowerCase t
        in if includes_str titleLower ''bluray'' \<or> includes_str titleLower ''blu-ray''
             then (10, ''BluRay'')
           else if includes_str titleLower ''remux'' then (9, ''Remux'')
           else if includes_str titleLower ''web-dl'' \<or> includes_str titleLower ''webdl''
             then (8, ''WEB-DL'')
           else if includes_str titleLower ''webrip'' then (6, ''WEBRip'')
           else if includes_str titleLower ''hdtv'' then (4, ''HDTV'')
           else if includes_str titleLower ''dvdrip'' then (3, ''DVDRip'')
           else (5, ''Digital''))"

text \<open>
  \<^verbatim>\<open>title.match(/\b(19|20)\d{2}\b/)\<close>: the text of the leftmost match. \<open>prev\<close> says
  whether the previous character is a word character.
\<close>

fun firstYear :: "bool \<Rightarrow> string \<Rightarrow> string option" where
  "firstYear prev [] = None"
| "firstYear prev (c # cs) =
     (case (if prev \<noteq> isWord c then matchYear (c # cs) else None) of
        Some n \<Rightarrow> Some (take n (c # cs))
      | None \<Rightarrow> firstYear (isWord c) cs)"

text \<open>
  \<^verbatim>\<open>parseInt(s)\<close> with no radix: leading whitespace, an optional sign, then either the
  prefix \<^verbatim>\<open>0x\<close> or \<^verbatim>\<open>0X\<close> and the longest run of hexadecimal digits, or the longest
  run of decimal digits; \<open>None\<close> is \<^verbatim>\<open>NaN\<close> (no digit). The value is the exact
  integer, which the runtime rounds to a double beyond \<^verbatim>\<open>2^53\<close>; the four digits
  of a year stay far below.
\<close>

definition digitsValue :: "string \<Rightarrow> int" where
  "digitsValue ds = foldl (\<lambda>a c. 10 * a + (int (code c) - 48)) 0 ds"

definition isHexDigit :: "char \<Rightarrow> bool" where
  "isHexDigit c \<longleftrightarrow>
     isDigit c \<or> (65 \<le> code c \<and> code c \<le> 70) \<or> (97 \<le> code c \<and> code c \<le> 102)"

definition hexDigitsValue :: "string \<Rightarrow> int" where
  "hexDigitsValue ds =
     foldl (\<lambda>a c. 16 * a + (if isDigit c then int (code c) - 48
                              else if code c \<le> 70 then int (code c) - 55
                              else int (code c) - 87)) 0 ds"

definition parseInt :: "string \<Rightarrow> int option" where
  "parseInt s =
     (let s1 = dropWhile isSpace s;
          neg = (case s1 of [] \<Rightarrow> False | c # _ \<Rightarrow> c = CHR ''-'');
          s2 = (case s1 of [] \<Rightarrow> [] | c # r \<Rightarrow> if c = CHR ''-'' \<or> c = CHR ''+'' then r else s1);
          hex = (prefix ''0x'' s2 \<or> prefix ''0X'' s2);
          ds = (if hex then takeWhile isHexDigit (drop 2 s2) else takeWhile isDigit s2);
          n = (if hex then hexDigitsValue ds else digitsValue ds)
      in if ds = [] then None else Some (if neg then - n else n))"

definition extractYear :: "string \<Rightarrow> int option" where
  "extractYear t =
     (if t = [] then None
      else (case firstYear False t of None \<Rightarrow> None | Some yearMatch \<Rightarrow> parseInt yearMatch))"

section \<open>Candidate ranker\<close>

text \<open>
  A library item, with the fields the matching code reads (\<open>item_id\<close> is the field
  \<^verbatim>\<open>id\<close>); an absent field is \<open>None\<close>.
\<close>

record libraryEntry =
  name :: "string option"
  title :: "string option"
  item_id :: "string option"
  series_id :: "string option"

text \<open>
  The object pushed for a retained item; \<open>'i\<close> is what \<open>item\<close> holds: the entry itself
  where the library is a list of values, a reference where it lives in a store.
\<close>

record 'i matchCandidate =
  item :: 'i
  titleScore :: rat
  yearBonus :: rat
  finalScore :: rat
  qualityScore :: int
  qualityTag :: string
  sourceScore :: int
  sourceTag :: string
  year :: "int option"
  title :: string

text \<open>\<^verbatim>\<open>item.name || item.title || ''\<close>: an absent or empty string is falsy.\<close>

definition itemTitleOf :: "libraryEntry \<Rightarrow> string" where
  "itemTitleOf it =
     (case name it of
        Some n \<Rightarrow> if n \<noteq> [] then n else (case libraryEntry.title it of Some t \<Rightarrow> t | None \<Rightarrow> [])
      | None \<Rightarrow> (case libraryEntry.title it of Some t \<Rightarrow> t | None \<Rightarrow> []))"

text \<open>
  A year as the source tests it in \<^verbatim>\<open>if (targetYear && itemYear)\<close>: \<open>None\<close> is
  \<^verbatim>\<open>null\<close> (or \<^verbatim>\<open>NaN\<close>), and the number 0 is falsy as well.
\<close>

definition present :: "int option \<Rightarrow> bool" where
  "present y = (case y of None \<Rightarrow> False | Some n \<Rightarrow> n \<noteq> 0)"

definition yearBonusOf :: "int option \<Rightarrow> int option \<Rightarrow> rat" where
  "yearBonusOf targetYear itemYear =
     (case (targetYear, itemYear) of
        (Some ty, Some iy) \<Rightarrow>
          if ty \<noteq> 0 \<and> iy \<noteq> 0 then
            (if iy = ty then 1 / 10
             else let yearDiff = \<bar>iy - ty\<bar> in max (- (5 / 100)) (- (of_int yearDiff) * (1 / 100)))
          else 0
      | _ \<Rightarrow> 0)"

text \<open>The body of the loop for an item that has cleared the threshold.\<close>

definition makeMatch :: "'i \<Rightarrow> string \<Rightarrow> rat \<Rightarrow> int option \<Rightarrow> 'i matchCandidate" where
  "makeMatch it itemTitle score targetYear =
     (let qualityInfo = extractQuality itemTitle;
          sourceInfo = extractSource itemTitle;
          itemYear = extractYear itemTitle;
          bonus = yearBonusOf targetYear itemYear;
          enhancedScore = score + bonus
      in \<lparr> item = it, titleScore = score, yearBonus = bonus, finalScore = enhancedScore,
           qualityScore = fst qualityInfo, qualityTag = snd qualityInfo,
           sourceScore = fst sourceInfo, sourceTag = snd sourceInfo,
           year = itemYear, title = itemTitle \<rparr>)"

text \<open>The first pass of \<^verbatim>\<open>findAllMatches\<close>: the loop over the library.\<close>

fun collectMatches ::
  "string \<Rightarrow> int option \<Rightarrow> libraryEntry list \<Rightarrow> libraryEntry matchCandidate list" where
  "collectMatches targetTitle targetYear [] = []"
| "collectMatches targetTitle targetYear (it # rest) =
     (let itemTitle = itemTitleOf it;
          score = fuzzyMatch targetTitle itemTitle
      in if score \<ge> matchingThreshold
         then makeMatch it itemTitle score targetYear # collectMatches targetTitle targetYear rest
         else collectMatches targetTitle targetYear rest)"

text \<open>
  The comparator handed to \<^verbatim>\<open>matches.sort\<close>. Scores are exact rationals where the
  source computes with doubles: the two part where a difference of two scores is exactly
  0.05 (in doubles \<^verbatim>\<open>1 - 0.95 > 0.05\<close> holds), so nothing below is read at that boundary.
\<close>

definition compareMatches :: "'i matchCandidate \<Rightarrow> 'i matchCandidate \<Rightarrow> rat" where
  "compareMatches a b =
     (if \<bar>finalScore a - finalScore b\<bar> > 5 / 100 then finalScore b - finalScore a
      else if qualityScore a \<noteq> qualityScore b then of_int (qualityScore b - qualityScore a)
      else of_int (sourceScore b - sourceScore a))"

text \<open>
  \<^verbatim>\<open>Array.prototype.sort(cmp)\<close> belongs to the runtime, which guarantees a stable sort
  and leaves the order to the implementation where the comparator is not a consistent
  order (the one above is not transitive). It is modelled as the stable insertion sort:
  an element goes in front of the first element it does not have to follow
  (\<open>cmp x y \<le> 0\<close>).
\<close>

fun insertBy :: "('a \<Rightarrow> 'a \<Rightarrow> rat) \<Rightarrow> 'a \<Rightarrow> 'a list \<Rightarrow> 'a list" where
  "insertBy cmp x [] = [x]"
| "insertBy cmp x (y # ys) = (if cmp x y \<le> 0 then x # y # ys else y # insertBy cmp x ys)"

definition sortBy :: "('a \<Rightarrow> 'a \<Rightarrow> rat) \<Rightarrow> 'a list \<Rightarrow> 'a list" where
  "sortBy cmp xs = foldr (insertBy cmp) xs []"

definition findAllMatches ::
  "string \<Rightarrow> int option \<Rightarrow> libraryEntry list \<Rightarrow> libraryEntry matchCandidate list" where
  "findAllMatches targetTitle targetYear contentLibrary =
     sortBy compareMatches (collectMatches targetTitle targetYear contentLibrary)"

text \<open>The current \<^verbatim>\<open>findBestMatch\<close>: the head of the ranking with no target year.\<close>

definition findBestMatch :: "string \<Rightarrow> libraryEntry list \<Rightarrow> libraryEntry option \<times> rat" where
  "findBestMatch targetTitle contentLibrary =
     (case findAllMatches targetTitle None contentLibrary of
        [] \<Rightarrow> (None, 0)
      | bestMatch # _ \<Rightarrow> (Some (item bestMatch), finalScore bestMatch))"

text \<open>
  The earlier \<^verbatim>\<open>findBestMatch\<close> (addon.js): one scan that keeps the first item
  with the strictly highest score at or above the threshold.
\<close>

fun findBestMatchLoop ::
  "string \<Rightarrow> libraryEntry list \<Rightarrow> libraryEntry option \<times> rat \<Rightarrow> libraryEntry option \<times> rat" where
  "findBestMatchLoop targetTitle [] best = best"
| "findBestMatchLoop targetTitle (it # rest) (bestMatch, bestScore) =
     (let itemTitle = itemTitleOf it;
          score = fuzzyMatch targetTitle itemTitle
      in if score > bestScore \<and> score \<ge> matchingThreshold
         then findBestMatchLoop targetTitle rest (Some it, score)
         else findBestMatchLoop targetTitle rest (bestMatch, bestScore))"

definition findBestMatchOld :: "string \<Rightarrow> libraryEntry list \<Rightarrow> libraryEntry option \<times> rat" where
  "findBestMatchOld targetTitle contentLibrary = findBestMatchLoop targetTitle contentLibrary (None, 0)"

section \<open>The ranker over a store\<close>

text \<open>
  The library as the running program holds it: an array of references to item objects.
  \<^verbatim>\<open>findAllMatches\<close> allocates the array \<^verbatim>\<open>matches\<close>, pushes onto it and sorts it in
  place; the objects it pushes hold a reference to the item.
\<close>

type_synonym addr = nat

datatype obj =
    Item libraryEntry
  | ItemArray "addr list"
  | MatchArray "addr matchCandidate list"

record store =
  heap :: "addr \<Rightarrow> obj option"
  nextAddr :: addr

text \<open>Every allocated address lies below the allocation pointer.\<close>

definition wfStore :: "store \<Rightarrow> bool" where
  "wfStore s \<longleftrightarrow> (\<forall>a. heap s a \<noteq> None \<longrightarrow> a < nextAddr s)"

definition alloc :: "obj \<Rightarrow> store \<Rightarrow> addr \<times> store" where
  "alloc v s = (nextAddr s, s\<lparr> heap := (heap s)(nextAddr s \<mapsto> v), nextAddr := Suc (nextAddr s) \<rparr>)"

text \<open>\<^verbatim>\<open>item.name || item.title || ''\<close> through a reference.\<close>

definition titleOfRef :: "store \<Rightarrow> addr \<Rightarrow> string" where
  "titleOfRef s a = (case heap s a of Some (Item e) \<Rightarrow> itemTitleOf e | _ \<Rightarrow> [])"

text \<open>\<^verbatim>\<open>matches.push(m)\<close>\<close>

definition push :: "addr \<Rightarrow> addr matchCandidate \<Rightarrow> store \<Rightarrow> store" where
  "push ma m s =
     (case heap s ma of
        Some (MatchArray ms) \<Rightarrow> s\<lparr> heap := (heap s)(ma \<mapsto> MatchArray (ms @ [m])) \<rparr>
      | _ \<Rightarrow> s)"

text \<open>
  The loop \<^verbatim>\<open>for (const item of contentLibrary)\<close> over the references the library array
  holds when the loop starts, pushing onto the array at \<open>ma\<close>.
\<close>

fun collectMatchesH :: "string \<Rightarrow> int option \<Rightarrow> addr list \<Rightarrow> addr \<Rightarrow> store \<Rightarrow> store" where
  "collectMatchesH targetTitle targetYear [] ma s = s"
| "collectMatchesH targetTitle targetYear (a # rest) ma s =
     (let itemTitle = titleOfRef s a;
          score = fuzzyMatch targetTitle itemTitle
      in if score \<ge> matchingThreshold
         then collectMatchesH targetTitle targetYear rest ma
                (push ma (makeMatch a itemTitle score targetYear) s)
         else collectMatchesH targetTitle targetYear rest ma s)"

text \<open>\<^verbatim>\<open>matches.sort(cmp)\<close>, in place.\<close>

definition sortInPlace :: "addr \<Rightarrow> store \<Rightarrow> store" where
  "sortInPlace ma s =
     (case heap s ma of
        Some (MatchArray ms) \<Rightarrow> s\<lparr> heap := (heap s)(ma \<mapsto> MatchArray (sortBy compareMatches ms)) \<rparr>
      | _ \<Rightarrow> s)"

definition libraryItems :: "store \<Rightarrow> addr \<Rightarrow> addr list" where
  "libraryItems s contentLibrary =
     (case heap s contentLibrary of Some (ItemArray refs) \<Rightarrow> refs | _ \<Rightarrow> [])"

definition findAllMatchesH :: "string \<Rightarrow> int option \<Rightarrow> addr \<Rightarrow> store \<Rightarrow> addr \<times> store" where
  "findAllMatchesH targetTitle targetYear contentLibrary s =
     (let (matches, s1) = alloc (MatchArray []) s;
          s2 = collectMatchesH targetTitle targetYear (libraryItems s1 contentLibrary) matches s1;
          s3 = sortInPlace matches s2
      in (matches, s3))"

definition findBestMatchH :: "string \<Rightarrow> addr \<Rightarrow> store \<Rightarrow> (addr option \<times> rat) \<times> store" where
  "findBestMatchH targetTitle contentLibrary s =
     (let (matches, s1) = findAllMatchesH targetTitle None contentLibrary s
      in case heap s1 matches of
           Some (MatchArray (bestMatch # _)) \<Rightarrow> ((Some (item bestMatch), finalScore bestMatch), s1)
         | _ \<Rightarrow> ((None, 0), s1))"

section \<open>Result cache and resolution\<close>

text \<open>What \<^verbatim>\<open>getOfficialTitle\<close> keeps of an OMDb answer.\<close>

record omdbData =
  Title :: string
  Year :: "string option"

text \<open>
  The outcome of the request to the OMDb service: the request throws, the service
  answers with an error, or it answers with a record.
\<close>

datatype omdbReply = RequestFailed | ApiError | ApiFound omdbData

text \<open>
  An entry of \<^verbatim>\<open>seriesInfo.videos\<close>: its season and episode as \<^verbatim>\<open>Number(...)\<close> reads them
  (\<open>None\<close> is \<^verbatim>\<open>NaN\<close>) and its title.
\<close>

record video =
  videoSeason :: "int option"
  videoEpisode :: "int option"
  videoTitle :: "string option"

text \<open>
  What the provider module's \<^verbatim>\<open>fetchSeriesInfo\<close> does: it throws, the module has no such
  function, or it returns an object, of which the \<^verbatim>\<open>videos\<close> array is kept (\<open>None\<close> when the
  object is null or has no such array).
\<close>

datatype seriesFetch = FetchFailed | NoFetcher | FetchedInfo "video list option"

text \<open>
  The collaborators outside the matching core: whether an API key is configured, the
  OMDb service, what a library refresh (\<^verbatim>\<open>updateData\<close>, which asks the provider module)
  makes of the movie and series partitions, the provider's series details, and the
  runtime's conversion of a string to a number (\<open>None\<close> is \<^verbatim>\<open>NaN\<close>).
\<close>

record env =
  omdbApiKey :: bool
  omdbFetch :: "string \<Rightarrow> omdbReply"
  refresh :: "libraryEntry list \<times> libraryEntry list \<Rightarrow> libraryEntry list \<times> libraryEntry list"
  fetchSeriesInfo :: "string \<Rightarrow> seriesFetch"
  toNumber :: "string \<Rightarrow> rat option"

text \<open>The objects \<^verbatim>\<open>searchEpisodeByImdbId\<close> returns.\<close>

record episodeMatch =
  episode :: video
  epQualityScore :: int
  epQualityTag :: string
  epSourceScore :: int
  epSourceTag :: string
  seriesName :: "string option"
  seriesScore :: "rat option"

text \<open>
  What a resolution returns and the cache stores: \<^verbatim>\<open>null\<close>, a list of movie candidates or
  a list of episode candidates.
\<close>

datatype resolution =
    NoResult
  | Movies "libraryEntry matchCandidate list"
  | Episodes "episodeMatch list"

record cached =
  result :: resolution
  timestamp :: int

text \<open>What a resolution does besides returning, in the order it happens.\<close>

datatype event = Resolve string | Refresh | Scan

record addon =
  movies :: "libraryEntry list"
  series :: "libraryEntry list"
  realTimeCache :: "string \<Rightarrow> cached option"
  omdbCache :: "string \<Rightarrow> omdbData option option"
  seriesInfoCache :: "string \<Rightarrow> video list option option"
  trace :: "event list"

definition getOfficialTitle :: "env \<Rightarrow> string \<Rightarrow> addon \<Rightarrow> omdbData option \<times> addon" where
  "getOfficialTitle e imdbId s0 =
     (let s = s0\<lparr> trace := trace s0 @ [Resolve imdbId] \<rparr>
      in case omdbCache s imdbId of
           Some r \<Rightarrow> (r, s)
         | None \<Rightarrow>
             if \<not> omdbApiKey e then (None, s)
             else (case omdbFetch e imdbId of
                     ApiFound d \<Rightarrow> (Some d, s\<lparr> omdbCache := (omdbCache s)(imdbId \<mapsto> Some d) \<rparr>)
                   | ApiError \<Rightarrow> (None, s\<lparr> omdbCache := (omdbCache s)(imdbId \<mapsto> None) \<rparr>)
                   | RequestFailed \<Rightarrow> (None, s)))"

definition updateData :: "env \<Rightarrow> addon \<Rightarrow> addon" where
  "updateData e s =
     (let (ms, ss) = refresh e (movies s, series s)
      in s\<lparr> movies := ms, series := ss, trace := trace s @ [Refresh] \<rparr>)"

text \<open>The test at the head of both resolutions: a cached entry younger than an hour.\<close>

definition cacheLookup :: "addon \<Rightarrow> string \<Rightarrow> int \<Rightarrow> resolution option" where
  "cacheLookup s cacheKey now =
     (case realTimeCache s cacheKey of
        Some c \<Rightarrow> if now - timestamp c < 3600000 then Some (result c) else None
      | None \<Rightarrow> None)"

text \<open>
  \<^verbatim>\<open>searchMovieByImdbId(imdbId)\<close>; \<open>now\<close> is the clock at the cache test and \<open>later\<close> the
  clock when the result is stored, both in milliseconds.
\<close>

definition searchMovieByImdbId ::
  "env \<Rightarrow> string \<Rightarrow> int \<Rightarrow> int \<Rightarrow> addon \<Rightarrow> resolution \<times> addon" where
  "searchMovieByImdbId e imdbId now later s =
     (case cacheLookup s imdbId now of
        Some r \<Rightarrow> (r, s)
      | None \<Rightarrow>
          (case getOfficialTitle e imdbId s of
             (None, s1) \<Rightarrow> (Movies [], s1)
           | (Some omdb, s1) \<Rightarrow>
               let s2 = (if length (movies s1) = 0 then updateData e s1 else s1);
                   targetYear = (case Year omdb of
                                   None \<Rightarrow> None
                                 | Some y \<Rightarrow> if y = [] then None else parseInt y);
                   matches = findAllMatches (Title omdb) targetYear (movies s2);
                   s3 = s2\<lparr> trace := trace s2 @ [Scan] \<rparr>
               in if length matches > 0
                  then let topMatches = take 5 matches
                       in (Movies topMatches,
                           s3\<lparr> realTimeCache :=
                                 (realTimeCache s3)
                                   (imdbId \<mapsto> \<lparr> result = Movies topMatches, timestamp = later \<rparr>) \<rparr>)
                  else (Movies [], s3)))"

section \<open>Episode resolution\<close>

text \<open>
  \<^verbatim>\<open>searchEpisodeByImdbId\<close> hands \<^verbatim>\<open>findAllMatches\<close> the year of the OMDb record as it is,
  a string. Then \<^verbatim>\<open>itemYear === targetYear\<close> compares a number with a string and is false,
  the difference \<^verbatim>\<open>itemYear - targetYear\<close> converts the string, and a string that is not a
  number makes the bonus and the final score \<^verbatim>\<open>NaN\<close> (\<open>None\<close>). Of the object pushed for
  a series, the fields read afterwards are kept.
\<close>

record seriesMatch =
  seriesItem :: libraryEntry
  seriesTitleScore :: rat
  seriesFinalScore :: "rat option"
  seriesQualityScore :: int
  seriesSourceScore :: int

definition yearBonusStr :: "(string \<Rightarrow> rat option) \<Rightarrow> string option \<Rightarrow> int option \<Rightarrow> rat option" where
  "yearBonusStr toNum targetYear itemYear =
     (case (targetYear, itemYear) of
        (Some ty, Some iy) \<Rightarrow>
          if ty \<noteq> [] \<and> iy \<noteq> 0 then
            (case toNum ty of
               None \<Rightarrow> None
             | Some n \<Rightarrow> Some (max (- (5 / 100)) (- \<bar>of_int iy - n\<bar> * (1 / 100))))
          else Some 0
      | _ \<Rightarrow> Some 0)"

fun collectSeriesMatches ::
  "(string \<Rightarrow> rat option) \<Rightarrow> string \<Rightarrow> string option \<Rightarrow> libraryEntry list \<Rightarrow> seriesMatch list" where
  "collectSeriesMatches toNum targetTitle targetYear [] = []"
| "collectSeriesMatches toNum targetTitle targetYear (it # rest) =
     (let itemTitle = itemTitleOf it;
          score = fuzzyMatch targetTitle itemTitle
      in if score \<ge> matchingThreshold
         then \<lparr> seriesItem = it, seriesTitleScore = score,
                seriesFinalScore =
                  map_option (\<lambda>bonus. score + bonus)
                    (yearBonusStr toNum targetYear (extractYear itemTitle)),
                seriesQualityScore = fst (extractQuality itemTitle),
                seriesSourceScore = fst (extractSource itemTitle) \<rparr>
              # collectSeriesMatches toNum targetTitle targetYear rest
         else collectSeriesMatches toNum targetTitle targetYear rest)"

text \<open>
  The comparator of \<^verbatim>\<open>findAllMatches\<close> and the one for episodes, on scores that may be
  \<^verbatim>\<open>NaN\<close>: a comparison with \<^verbatim>\<open>NaN\<close> is false, so the scores count as close.
\<close>

definition compareScored :: "rat option \<Rightarrow> int \<Rightarrow> int \<Rightarrow> rat option \<Rightarrow> int \<Rightarrow> int \<Rightarrow> rat" where
  "compareScored fa qa sa fb qb sb =
     (let byTiers = (if qa \<noteq> qb then of_int (qb - qa) else of_int (sb - sa))
      in case (fa, fb) of
           (Some x, Some y) \<Rightarrow> if \<bar>x - y\<bar> > 5 / 100 then y - x else byTiers
         | _ \<Rightarrow> byTiers)"

definition compareSeries :: "seriesMatch \<Rightarrow> seriesMatch \<Rightarrow> rat" where
  "compareSeries a b =
     compareScored (seriesFinalScore a) (seriesQualityScore a) (seriesSourceScore a)
                   (seriesFinalScore b) (seriesQualityScore b) (seriesSourceScore b)"

definition compareEpisodes :: "episodeMatch \<Rightarrow> episodeMatch \<Rightarrow> rat" where
  "compareEpisodes a b =
     compareScored (seriesScore a) (epQualityScore a) (epSourceScore a)
                   (seriesScore b) (epQualityScore b) (epSourceScore b)"

definition findAllMatchesStr ::
  "(string \<Rightarrow> rat option) \<Rightarrow> string \<Rightarrow> string option \<Rightarrow> libraryEntry list \<Rightarrow> seriesMatch list" where
  "findAllMatchesStr toNum targetTitle targetYear contentLibrary =
     sortBy compareSeries (collectSeriesMatches toNum targetTitle targetYear contentLibrary)"

text \<open>\<^verbatim>\<open>id.replace(/^iptv_series_/, '')\<close>\<close>

definition stripSeriesPrefix :: "string \<Rightarrow> string" where
  "stripSeriesPrefix s =
     (if prefix ''iptv_series_'' s then drop (length ''iptv_series_'') s else s)"

text \<open>
  \<^verbatim>\<open>seriesMatch.series_id || seriesMatch.id.replace(...)\<close>; \<open>None\<close> when the expression
  throws because there is no \<^verbatim>\<open>id\<close>.
\<close>

definition seriesIdOf :: "libraryEntry \<Rightarrow> string option" where
  "seriesIdOf it =
     (let fromId = map_option stripSeriesPrefix (item_id it)
      in case series_id it of
           Some sid \<Rightarrow> if sid \<noteq> [] then Some sid else fromId
         | None \<Rightarrow> fromId)"

definition ensureSeriesInfo :: "env \<Rightarrow> string \<Rightarrow> addon \<Rightarrow> video list option \<times> addon" where
  "ensureSeriesInfo e seriesId s =
     (if seriesId = [] then (None, s)
      else case seriesInfoCache s seriesId of
             Some info \<Rightarrow> (info, s)
           | None \<Rightarrow>
               (case fetchSeriesInfo e seriesId of
                  FetchedInfo info \<Rightarrow>
                    (info, s\<lparr> seriesInfoCache := (seriesInfoCache s)(seriesId \<mapsto> info) \<rparr>)
                | _ \<Rightarrow>
                    (Some [], s\<lparr> seriesInfoCache := (seriesInfoCache s)(seriesId \<mapsto> Some []) \<rparr>)))"

text \<open>\<^verbatim>\<open>Number(v.season) === season\<close>: \<^verbatim>\<open>NaN\<close> equals nothing.\<close>

definition sameNumber :: "int option \<Rightarrow> int option \<Rightarrow> bool" where
  "sameNumber a b = (case (a, b) of (Some x, Some y) \<Rightarrow> x = y | _ \<Rightarrow> False)"

definition enhanceEpisode :: "seriesMatch \<Rightarrow> video \<Rightarrow> episodeMatch" where
  "enhanceEpisode m ep =
     (let epTitle = (case videoTitle ep of Some t \<Rightarrow> t | None \<Rightarrow> []);
          qualityInfo = extractQuality epTitle;
          sourceInfo = extractSource epTitle
      in \<lparr> episode = ep,
           epQualityScore = fst qualityInfo, epQualityTag = snd qualityInfo,
           epSourceScore = fst sourceInfo, epSourceTag = snd sourceInfo,
           seriesName = name (seriesItem m), seriesScore = seriesFinalScore m \<rparr>)"

text \<open>
  The loop over the matching series: the episodes of each with the requested season and
  episode number, in the order of the ranking. A series whose identifier cannot be read
  is skipped (the exception is caught inside the loop).
\<close>

fun collectEpisodes ::
  "env \<Rightarrow> int option \<Rightarrow> int option \<Rightarrow> seriesMatch list \<Rightarrow> addon \<Rightarrow> episodeMatch list \<times> addon" where
  "collectEpisodes e season epNo [] s = ([], s)"
| "collectEpisodes e season epNo (m # rest) s =
     (case seriesIdOf (seriesItem m) of
        None \<Rightarrow> collectEpisodes e season epNo rest s
      | Some seriesId \<Rightarrow>
          (case ensureSeriesInfo e seriesId s of
             (seriesInfo, s1) \<Rightarrow>
               let episodeMatches =
                     (case seriesInfo of
                        None \<Rightarrow> []
                      | Some videos \<Rightarrow>
                          filter (\<lambda>v. sameNumber (videoSeason v) season
                                      \<and> sameNumber (videoEpisode v) epNo) videos);
                   enhancedEpisodes = map (enhanceEpisode m) episodeMatches
               in (case collectEpisodes e season epNo rest s1 of
                     (others, s2) \<Rightarrow> (enhancedEpisodes @ others, s2))))"

text \<open>A number in a template literal: decimal digits, or \<^verbatim>\<open>NaN\<close>.\<close>

fun natDigits :: "nat \<Rightarrow> nat \<Rightarrow> string" where
  "natDigits 0 n = []"
| "natDigits (Suc fuel) n =
     (if n < 10 then [char_of (48 + n)]
      else natDigits fuel (n div 10) @ [char_of (48 + n mod 10)])"

definition showNumber :: "int option \<Rightarrow> string" where
  "showNumber x =
     (case x of
        None \<Rightarrow> ''NaN''
      | Some i \<Rightarrow> (if i < 0 then ''-'' else []) @ natDigits (Suc (nat \<bar>i\<bar>)) (nat \<bar>i\<bar>))"

definition episodeCacheKey :: "string \<Rightarrow> int option \<Rightarrow> int option \<Rightarrow> string" where
  "episodeCacheKey imdbId season epNo =
     imdbId @ '':'' @ showNumber season @ '':'' @ showNumber epNo"

text \<open>
  \<^verbatim>\<open>searchEpisodeByImdbId(imdbId, season, episode)\<close>, with the two clock readings as for
  movies.
\<close>

definition searchEpisodeByImdbId ::
  "env \<Rightarrow> string \<Rightarrow> int option \<Rightarrow> int option \<Rightarrow> int \<Rightarrow> int \<Rightarrow> addon \<Rightarrow> resolution \<times> addon" where
  "searchEpisodeByImdbId e imdbId season epNo now later s =
     (let cacheKey = episodeCacheKey imdbId season epNo
      in case cacheLookup s cacheKey now of
           Some r \<Rightarrow> (r, s)
         | None \<Rightarrow>
             (case getOfficialTitle e imdbId s of
                (None, s1) \<Rightarrow> (NoResult, s1)
              | (Some omdb, s1) \<Rightarrow>
                  let s2 = (if length (series s1) = 0 then updateData e s1 else s1);
                      allMatches = findAllMatchesStr (toNumber e) (Title omdb) (Year omdb) (series s2);
                      s3 = s2\<lparr> trace := trace s2 @ [Scan] \<rparr>
                  in if length allMatches > 0
                     then (case collectEpisodes e season epNo allMatches s3 of
                             (allEpisodeMatches, s4) \<Rightarrow>
                               if length allEpisodeMatches > 0
                               then let topEpisodes = take 10 (sortBy compareEpisodes allEpisodeMatches)
                                    in (Episodes topEpisodes,
                                        s4\<lparr> realTimeCache :=
                                              (realTimeCache s4)
                                                (cacheKey \<mapsto> \<lparr> result = Episodes topEpisodes,
                                                               timestamp = later \<rparr>) \<rparr>)
                               else (NoResult, s4))
                     else (NoResult, s3)))"

text \<open>A resolution with nothing in it: \<^verbatim>\<open>null\<close> or an empty list.\<close>

definition emptyResult :: "resolution \<Rightarrow> bool" where
  "emptyResult r = (case r of NoResult \<Rightarrow> True | Movies ms \<Rightarrow> ms = [] | Episodes es \<Rightarrow> es = [])"

section \<open>Properties as the specification words them\<close>

text \<open>The filtered token list of a title, as \<^verbatim>\<open>fuzzyMatch\<close> builds it.\<close>

definition titleWords :: "string \<Rightarrow> string list" where
  "titleWords t = filter (\<lambda>w. length w > 2) (split (normalizeTitle t))"

text \<open>An item clears the matching threshold for a target title.\<close>

definition clears :: "string \<Rightarrow> libraryEntry \<Rightarrow> bool" where
  "clears targetTitle it \<longleftrightarrow> fuzzyMatch targetTitle (itemTitleOf it) \<ge> matchingThreshold"

text \<open>
  The order required of two neighbours of the ranking: the scores differ by more than
  0.05 and the first is the higher, or they differ by at most 0.05 and the first has at
  least the quality tier of the second, or the quality ties as well and the first has at
  least the source tier of the second.
\<close>

definition adjacentOrdered :: "'i matchCandidate \<Rightarrow> 'i matchCandidate \<Rightarrow> bool" where
  "adjacentOrdered a b \<longleftrightarrow>
     (\<bar>finalScore a - finalScore b\<bar> > 5 / 100 \<and> finalScore a \<ge> finalScore b) \<or>
     (\<bar>finalScore a - finalScore b\<bar> \<le> 5 / 100 \<and> qualityScore a \<ge> qualityScore b) \<or>
     (\<bar>finalScore a - finalScore b\<bar> \<le> 5 / 100 \<and> qualityScore a = qualityScore b
        \<and> sourceScore a \<ge> sourceScore b)"

text \<open>
  The same order on final scores that may be \<^verbatim>\<open>NaN\<close>. A comparison with \<^verbatim>\<open>NaN\<close> is
  false, so two such scores differ neither by more than 0.05 nor by at most 0.05. The
  third alternative is taken at its weakest: the quality tiers are equal and the first
  has at least the source tier of the second, whatever the scores.
\<close>

definition adjacentOrderedStr :: "seriesMatch \<Rightarrow> seriesMatch \<Rightarrow> bool" where
  "adjacentOrderedStr a b \<longleftrightarrow>
     (case (seriesFinalScore a, seriesFinalScore b) of
        (Some x, Some y) \<Rightarrow>
          (\<bar>x - y\<bar> > 5 / 100 \<and> x \<ge> y) \<or>
          (\<bar>x - y\<bar> \<le> 5 / 100 \<and> seriesQualityScore a \<ge> seriesQualityScore b)
      | _ \<Rightarrow> False) \<or>
     (seriesQualityScore a = seriesQualityScore b \<and> seriesSourceScore a \<ge> seriesSourceScore b)"

text \<open>
  The quality table of the specification: case-insensitive substring checks in a fixed
  priority order, the first rule with a matching pattern wins, and a default.
\<close>

definition containsCI :: "string \<Rightarrow> string \<Rightarrow> bool" where
  "containsCI t p \<longleftrightarrow> sublist (toLowerCase p) (toLowerCase t)"

definition qualityRules :: "(string list \<times> (int \<times> string)) list" where
  "qualityRules =
     [([''4k'', ''2160p'', ''uhd''], (8, ''4K'')),
      ([''1080p'', ''fhd''], (6, ''1080p'')),
      ([''720p'', ''hd''], (4, ''720p'')),
      ([''480p'', ''sd''], (2, ''480p''))]"

definition qualitySpec :: "string \<Rightarrow> int \<times> string" where
  "qualitySpec t =
     (case find (\<lambda>rule. \<exists>p \<in> set (fst rule). containsCI t p) qualityRules of
        Some rule \<Rightarrow> snd rule
      | None \<Rightarrow> (3, ''HD''))"

text \<open>
  The caching of a resolution \<open>f\<close> (a routine with its arguments, taking the two clock
  readings and the state) under the cache key \<open>k\<close>, for the identifier \<open>i\<close> it asks
  the resolver about. After any run: a result that is not empty is in the result cache
  under \<open>k\<close>, and every later run less than 3600000 ms after the entry's timestamp
  returns it and leaves the whole state as it is; an empty result leaves the result
  cache as it was; and if the run with the empty result did anything (it was a cache
  miss), every later run calls the resolver again.
\<close>

definition cachesMatchesOnly ::
  "(int \<Rightarrow> int \<Rightarrow> addon \<Rightarrow> resolution \<times> addon) \<Rightarrow> string \<Rightarrow> string \<Rightarrow> bool" where
  "cachesMatchesOnly f k i \<longleftrightarrow>
     (\<forall>now later s r s'. f now later s = (r, s') \<longrightarrow>
        (\<not> emptyResult r \<longrightarrow>
           (\<exists>c. realTimeCache s' k = Some c \<and> result c = r \<and>
                (\<forall>now' later'. now' - timestamp c < 3600000 \<longrightarrow> f now' later' s' = (r, s')))) \<and>
        (emptyResult r \<longrightarrow> realTimeCache s' = realTimeCache s) \<and>
        (emptyResult r \<and> trace s' \<noteq> trace s \<longrightarrow>
           (\<forall>now' later'. now \<le> now' \<longrightarrow>
              (\<exists>rest. trace (snd (f now' later' s')) = trace s' @ Resolve i # rest))))"

section \<open>Auxiliary notions for the normalizer\<close>

text \<open>The words of a string: its maximal runs of word characters, from left to right.\<close>

fun wordsOf :: "string \<Rightarrow> string list" where
  "wordsOf [] = []"
| "wordsOf (c # cs) =
     (if isWord c then
        (if wordAt cs then (case wordsOf cs of [] \<Rightarrow> [[c]] | w # ws \<Rightarrow> (c # w) # ws)
         else [c] # wordsOf cs)
      else wordsOf cs)"

text \<open>
  A body matcher that matches whole words only: it fails in front of a non-word character,
  and at the start of a word it matches exactly the word, when the word is one of \<open>V\<close>.
\<close>

definition wholeWord :: "(string \<Rightarrow> nat option) \<Rightarrow> (string \<Rightarrow> bool) \<Rightarrow> bool" where
  "wholeWord m V \<longleftrightarrow>
     (\<forall>s. \<not> wordAt s \<longrightarrow> m s = None) \<and>
     (\<forall>w rest. w \<noteq> [] \<and> (\<forall>c \<in> set w. isWord c) \<and> \<not> wordAt rest \<longrightarrow>
        m (w @ rest) = (if V w then Some (length w) else None))"

text \<open>The code points that \<^verbatim>\<open>toLowerCase\<close> moves.\<close>

definition upperCode :: "nat \<Rightarrow> bool" where
  "upperCode n \<longleftrightarrow> (65 \<le> n \<and> n \<le> 90) \<or> (192 \<le> n \<and> n \<le> 222 \<and> n \<noteq> 215)"

text \<open>The words the year pattern removes, and the words a list of alternatives removes.\<close>

definition yearWord :: "string \<Rightarrow> bool" where
  "yearWord w \<longleftrightarrow> (\<exists>a b c d. w = [a, b, c, d] \<and>
      ((a = CHR ''1'' \<and> b = CHR ''9'') \<or> (a = CHR ''2'' \<and> b = CHR ''0'')) \<and> isDigit c \<and> isDigit d)"

definition altWord :: "string list \<Rightarrow> string \<Rightarrow> bool" where
  "altWord alts w \<longleftrightarrow> (\<exists>a \<in> set alts. length a = length w \<and> prefixCI a w)"

text \<open>Every alternative is a non-empty string of word characters.\<close>

definition goodAlts :: "string list \<Rightarrow> bool" where
  "goodAlts alts \<longleftrightarrow> (\<forall>a \<in> set alts. a \<noteq> [] \<and> (\<forall>p \<in> set a. isWord p))"

text \<open>The characters of a normalized title: the space, digits, lower-case letters, the underscore.\<close>

definition normChar :: "char \<Rightarrow> bool" where
  "normChar c \<longleftrightarrow> c = CHR '' '' \<or> (isWord c \<and> toLowerChar c = c)"

text \<open>The steps of \<^verbatim>\<open>normalizeTitle\<close> after the whitespace has been collapsed.\<close>

definition stripTokens :: "string \<Rightarrow> string" where
  "stripTokens z = trim (removeWords seriesWords (removeWords languageWords
                     (removeWords qualityWords (removeYears z))))"

section \<open>Example data\<close>

definition exampleLibrary :: "libraryEntry list" where
  "exampleLibrary =
     [\<lparr> name = Some ''Foo 2020'', title = None, item_id = Some ''u1'', series_id = None \<rparr>,
      \<lparr> name = Some ''Foo 4K (2017)'', title = None, item_id = Some ''u2'', series_id = None \<rparr>,
      \<lparr> name = None, title = Some ''Foo'', item_id = Some ''u3'', series_id = None \<rparr>,
      \<lparr> name = Some ''Bar'', title = None, item_id = Some ''u4'', series_id = None \<rparr>]"

definition exampleLibrary2 :: "libraryEntry list" where
  "exampleLibrary2 =
     [\<lparr> name = Some ''Foo'', title = None, item_id = Some ''u1'', series_id = None \<rparr>,
      \<lparr> name = Some ''Foo 4K'', title = None, item_id = Some ''u2'', series_id = None \<rparr>]"

definition exampleLibrary3 :: "libraryEntry list" where
  "exampleLibrary3 =
     [\<lparr> name = Some ''Red Blue Green Black 4K'', title = None, item_id = Some ''u1'', series_id = None \<rparr>,
      \<lparr> name = Some ''Red Blue Green Black White'', title = None, item_id = Some ''u2'', series_id = None \<rparr>,
      \<lparr> name = Some ''Bar'', title = None, item_id = Some ''u3'', series_id = None \<rparr>]"

definition yearLibrary :: "libraryEntry list" where
  "yearLibrary =
     [\<lparr> name = Some ''Foo (2020)'', title = None, item_id = Some ''s1'', series_id = Some ''9'' \<rparr>]"

definition rangeLibrary :: "libraryEntry list" where
  "rangeLibrary =
     [\<lparr> name = Some ''Foo 4K'', title = None, item_id = Some ''s1'', series_id = Some ''1'' \<rparr>,
      \<lparr> name = Some ''Foo 2011'', title = None, item_id = Some ''s2'', series_id = Some ''2'' \<rparr>]"

definition exampleStore :: store where
  "exampleStore =
     \<lparr> heap = (\<lambda>a. None)
                (0 \<mapsto> Item \<lparr> name = Some ''Foo'', title = None, item_id = Some ''u1'', series_id = None \<rparr>,
                 1 \<mapsto> Item \<lparr> name = Some ''Foo 4K'', title = None, item_id = Some ''u2'', series_id = None \<rparr>,
                 2 \<mapsto> ItemArray [0, 1]),
       nextAddr = 3 \<rparr>"

definition exampleVideos :: "video list" where
  "exampleVideos =
     [\<lparr> videoSeason = Some 1, videoEpisode = Some 1, videoTitle = Some ''Pilot 1080p'' \<rparr>,
      \<lparr> videoSeason = Some 1, videoEpisode = Some 2, videoTitle = Some ''Second'' \<rparr>]"

definition exampleEnv :: env where
  "exampleEnv =
     \<lparr> omdbApiKey = True,
       omdbFetch = (\<lambda>i. ApiFound \<lparr> Title = ''Foo'', Year = Some ''2020'' \<rparr>),
       refresh = (\<lambda>p. p),
       fetchSeriesInfo = (\<lambda>i. FetchedInfo (Some exampleVideos)),
       toNumber = (\<lambda>y. if y = ''2020'' then Some 2020 else None) \<rparr>"

text \<open>The same surroundings with an OMDb record whose year is a range, as for a series.\<close>

definition rangeEnv :: env where
  "rangeEnv =
     exampleEnv \<lparr> omdbFetch := (\<lambda>i. ApiFound \<lparr> Title = ''Foo'', Year = Some ''2011-2019'' \<rparr>) \<rparr>"

definition emptyAddon :: addon where
  "emptyAddon =
     \<lparr> movies = [], series = [], realTimeCache = (\<lambda>k. None), omdbCache = (\<lambda>k. None),
       seriesInfoCache = (\<lambda>k. None), trace = [] \<rparr>"

definition exampleSeriesAddon :: addon where
  "exampleSeriesAddon = emptyAddon \<lparr> series := exampleLibrary2 \<rparr>"

definition exampleAddon :: addon where
  "exampleAddon = emptyAddon \<lparr> movies := exampleLibrary \<rparr>"

section \<open>The ranking: threshold and order\<close>

lemma set_insertBy: "set (insertBy cmp x ys) = insert x (set ys)"
  by (induction ys) auto

lemma set_sortBy: "set (sortBy cmp xs) = set xs"
  by (induction xs) (auto simp: sortBy_def set_insertBy)

lemma length_insertBy: "length (insertBy cmp x ys) = Suc (length ys)"
  by (induction ys) auto

lemma length_sortBy: "length (sortBy cmp xs) = length xs"
  by (induction xs) (auto simp: sortBy_def length_insertBy)

lemma collectMatches_props:
  "m \<in> set (collectMatches T Y lib) \<Longrightarrow>
     item m \<in> set lib \<and> titleScore m = fuzzyMatch T (itemTitleOf (item m))
     \<and> titleScore m \<ge> matchingThreshold
     \<and> matchCandidate.title m = itemTitleOf (item m)
     \<and> year m = extractYear (matchCandidate.title m)
     \<and> yearBonus m = yearBonusOf Y (year m)
     \<and> finalScore m = titleScore m + yearBonus m"
  by (induction lib) (auto simp: Let_def makeMatch_def split: if_splits)

lemma findAllMatches_member:
  "m \<in> set (findAllMatches T Y lib) \<longleftrightarrow> m \<in> set (collectMatches T Y lib)"
  by (simp add: findAllMatches_def set_sortBy)

lemma exampleLibrary_ranking:
  "map (\<lambda>m. (matchCandidate.title m, titleScore m, yearBonus m, year m))
       (findAllMatches ''Foo'' (Some 2020) exampleLibrary) =
     [(''Foo 2020'', 1, 1 / 10, Some 2020), (''Foo 4K (2017)'', 1, - (3 / 100), Some 2017),
      (''Foo'', 1, 0, None)]"
  by code_simp

text \<open>
  C2. Every candidate that \<^verbatim>\<open>findAllMatches\<close> returns has a title score of at least 0.8:
  the score is the similarity of the target title and the item's title, the item comes
  from the library, and an item scoring below the threshold is in no candidate.
\<close>

theorem findAllMatches_threshold:
  "\<forall>m \<in> set (findAllMatches T Y lib).
     titleScore m \<ge> 8 / 10 \<and> titleScore m = fuzzyMatch T (itemTitleOf (item m)) \<and> item m \<in> set lib"
proof
  fix m
  assume "m \<in> set (findAllMatches T Y lib)"
  then have "m \<in> set (collectMatches T Y lib)"
    by (simp add: findAllMatches_member)
  from collectMatches_props[OF this]
  show "titleScore m \<ge> 8 / 10 \<and> titleScore m = fuzzyMatch T (itemTitleOf (item m)) \<and> item m \<in> set lib"
    by (simp add: matchingThreshold_def)
qed

theorem findAllMatches_threshold_witness:
  "findAllMatches ''Foo'' (Some 2020) exampleLibrary \<noteq> [] \<and>
   list_all (\<lambda>m. titleScore m \<ge> 8 / 10 \<and> item m \<in> set exampleLibrary)
     (findAllMatches ''Foo'' (Some 2020) exampleLibrary)"
proof -
  have "length (findAllMatches ''Foo'' (Some 2020) exampleLibrary) = 3"
    using arg_cong[OF exampleLibrary_ranking, of length] by simp
  then have "findAllMatches ''Foo'' (Some 2020) exampleLibrary \<noteq> []"
    by auto
  moreover have "list_all (\<lambda>m. titleScore m \<ge> 8 / 10 \<and> item m \<in> set exampleLibrary)
                   (findAllMatches ''Foo'' (Some 2020) exampleLibrary)"
    unfolding list_all_iff
    using findAllMatches_threshold[of "''Foo''" "Some 2020" exampleLibrary] by blast
  ultimately show ?thesis
    by (rule conjI)
qed

lemma compareMatches_antisym: "compareMatches x y > 0 \<Longrightarrow> compareMatches y x \<le> 0"
  by (auto simp: compareMatches_def abs_minus_commute split: if_splits)

lemma successively_insertBy:
  assumes anti: "\<And>x y. cmp x y > 0 \<Longrightarrow> cmp y x \<le> 0"
  shows "successively (\<lambda>a b. cmp a b \<le> 0) ys \<Longrightarrow>
         successively (\<lambda>a b. cmp a b \<le> 0) (insertBy cmp x ys)"
proof (induction ys)
  case Nil
  then show ?case by simp
next
  case (Cons y ys)
  show ?case
  proof (cases "cmp x y \<le> 0")
    case True
    with Cons.prems show ?thesis by simp
  next
    case False
    then have yx: "cmp y x \<le> 0"
      using anti[of x y] by simp
    have rest: "successively (\<lambda>a b. cmp a b \<le> 0) (insertBy cmp x ys)"
      using Cons by (cases ys) auto
    show ?thesis
      using False yx rest Cons.prems by (cases ys) auto
  qed
qed

lemma successively_sortBy:
  assumes "\<And>x y. cmp x y > 0 \<Longrightarrow> cmp y x \<le> 0"
  shows "successively (\<lambda>a b. cmp a b \<le> 0) (sortBy cmp xs)"
  by (induction xs) (auto simp: sortBy_def intro: successively_insertBy[OF assms])

lemma compareMatches_adjacentOrdered: "compareMatches a b \<le> 0 \<Longrightarrow> adjacentOrdered a b"
  by (auto simp: compareMatches_def adjacentOrdered_def split: if_splits)

lemma successively_nth:
  "successively P xs \<Longrightarrow> Suc i < length xs \<Longrightarrow> P (xs ! i) (xs ! Suc i)"
  by (simp add: successively_conv_nth)

text \<open>
  With a number or \<^verbatim>\<open>null\<close> for the target year, as on the movie path, every final
  score is a number. In this model, with exact scores and the insertion sort, every pair
  of neighbours (i, i+1) of the ranking is then in the order of the comparator: the final
  scores differ by more than 0.05 and the first is the higher, or they differ by at most
  0.05 and the first has at least the quality tier of the second, or the quality ties too
  and the first has at least the source tier of the second. The argument uses of the
  comparator only that it is antisymmetric; it is not transitive, and where a comparator
  is no consistent order the language leaves the result to the sorting algorithm.
\<close>

lemma findAllMatches_adjacent_numeric:
  "Suc i < length (findAllMatches T Y lib) \<Longrightarrow>
   adjacentOrdered (findAllMatches T Y lib ! i) (findAllMatches T Y lib ! Suc i)"
proof -
  assume i: "Suc i < length (findAllMatches T Y lib)"
  have "successively (\<lambda>a b. compareMatches a b \<le> 0) (findAllMatches T Y lib)"
    unfolding findAllMatches_def by (rule successively_sortBy) (rule compareMatches_antisym)
  from successively_nth[OF this i] show ?thesis
    by (rule compareMatches_adjacentOrdered)
qed

text \<open>
  C3 fails where the target year is a string. \<^verbatim>\<open>searchEpisodeByImdbId\<close> hands
  \<^verbatim>\<open>findAllMatches\<close> the year of the OMDb record unparsed, where \<^verbatim>\<open>searchMovieByImdbId\<close>
  parses it; for a series the record gives a range of years, and a candidate with a year
  in its title then gets the final score \<^verbatim>\<open>NaN\<close>. For the title \<^verbatim>\<open>Foo\<close>, the year
  \<^verbatim>\<open>2011-2019\<close> and the series \<^verbatim>\<open>Foo 4K\<close> and \<^verbatim>\<open>Foo 2011\<close> the ranking is \<^verbatim>\<open>Foo 4K\<close>
  (final score 1, quality 8, source 5) before \<^verbatim>\<open>Foo 2011\<close> (final score \<^verbatim>\<open>NaN\<close>,
  quality 3, source 5). The scores of these neighbours differ neither by more than 0.05
  nor by at most 0.05, and their quality tiers are not tied: none of the three
  alternatives holds. The episode resolution returns the episodes of the two series with
  these scores.
\<close>

theorem findAllMatches_adjacent_string_year:
  "map (\<lambda>m. (name (seriesItem m), seriesFinalScore m, seriesQualityScore m, seriesSourceScore m))
       (findAllMatchesStr (toNumber rangeEnv) ''Foo'' (Some ''2011-2019'') rangeLibrary)
     = [(Some ''Foo 4K'', Some 1, 8, 5), (Some ''Foo 2011'', None, 3, 5)] \<and>
   \<not> adjacentOrderedStr
       (findAllMatchesStr (toNumber rangeEnv) ''Foo'' (Some ''2011-2019'') rangeLibrary ! 0)
       (findAllMatchesStr (toNumber rangeEnv) ''Foo'' (Some ''2011-2019'') rangeLibrary ! 1) \<and>
   (case fst (searchEpisodeByImdbId rangeEnv ''tt1'' (Some 1) (Some 1) 0 0
                (emptyAddon \<lparr> series := rangeLibrary \<rparr>)) of
      Episodes es \<Rightarrow> map (\<lambda>e. (seriesName e, seriesScore e)) es
    | _ \<Rightarrow> [])
     = [(Some ''Foo 4K'', Some 1), (Some ''Foo 2011'', None)]"
  by code_simp

section \<open>Year adjustment\<close>

text \<open>
  With a number or \<^verbatim>\<open>null\<close> for the target year, as on the movie path, for every
  candidate of \<^verbatim>\<open>findAllMatches\<close>: its year is the year extracted from its title and its
  final score is the title score plus the adjustment. When the target year and the
  candidate's year are both present (as the source tests them: not null and not 0), equal
  years give an adjustment of exactly 0.10, a difference of 3 years exactly -0.03, and a
  difference of 5 years or more exactly -0.05; when either is missing the adjustment is 0.
\<close>

lemma yearBonus_numeric_values:
  "\<forall>m \<in> set (findAllMatches T Y lib).
     year m = extractYear (matchCandidate.title m) \<and>
     finalScore m = titleScore m + yearBonus m \<and>
     (present Y \<and> present (year m) \<longrightarrow>
        (year m = Y \<longrightarrow> yearBonus m = 1 / 10) \<and>
        (\<forall>ty iy. Y = Some ty \<and> year m = Some iy \<longrightarrow>
           (\<bar>iy - ty\<bar> = 3 \<longrightarrow> yearBonus m = - (3 / 100)) \<and>
           (\<bar>iy - ty\<bar> \<ge> 5 \<longrightarrow> yearBonus m = - (5 / 100)))) \<and>
     (\<not> present Y \<or> \<not> present (year m) \<longrightarrow> yearBonus m = 0)"
proof
  fix m
  assume "m \<in> set (findAllMatches T Y lib)"
  then have "m \<in> set (collectMatches T Y lib)"
    by (simp add: findAllMatches_member)
  from collectMatches_props[OF this]
  have y: "year m = extractYear (matchCandidate.title m)"
    and f: "finalScore m = titleScore m + yearBonus m"
    and b: "yearBonus m = yearBonusOf Y (year m)"
    by simp_all
  show "year m = extractYear (matchCandidate.title m) \<and>
     finalScore m = titleScore m + yearBonus m \<and>
     (present Y \<and> present (year m) \<longrightarrow>
        (year m = Y \<longrightarrow> yearBonus m = 1 / 10) \<and>
        (\<forall>ty iy. Y = Some ty \<and> year m = Some iy \<longrightarrow>
           (\<bar>iy - ty\<bar> = 3 \<longrightarrow> yearBonus m = - (3 / 100)) \<and>
           (\<bar>iy - ty\<bar> \<ge> 5 \<longrightarrow> yearBonus m = - (5 / 100)))) \<and>
     (\<not> present Y \<or> \<not> present (year m) \<longrightarrow> yearBonus m = 0)"
    using y f b by (auto simp: yearBonusOf_def present_def split: option.splits)
qed

text \<open>
  C6 fails where the target year is a string. \<^verbatim>\<open>searchEpisodeByImdbId\<close> hands
  \<^verbatim>\<open>findAllMatches\<close> the year of the OMDb record unparsed, where \<^verbatim>\<open>searchMovieByImdbId\<close>
  parses it. Then \<^verbatim>\<open>itemYear === targetYear\<close> compares a number with a string and is
  false also for the same year, and the other branch gives the adjustment 0 for a
  difference of 0. For the title \<^verbatim>\<open>Foo\<close>, the year \<^verbatim>\<open>2020\<close> and the entry \<^verbatim>\<open>Foo (2020)\<close>:
  both years are present and equal, the series gets the adjustment 0 and the final
  score 1, its episode the series score 1, and the same entry as a movie the adjustment
  0.10 and the final score 1.10.
\<close>

theorem yearBonus_string_year:
  "extractYear ''Foo (2020)'' = Some 2020 \<and>
   yearBonusStr (toNumber exampleEnv) (Some ''2020'') (extractYear ''Foo (2020)'') = Some 0 \<and>
   map (\<lambda>m. (name (seriesItem m), seriesTitleScore m, seriesFinalScore m))
       (findAllMatchesStr (toNumber exampleEnv) ''Foo'' (Some ''2020'') yearLibrary)
     = [(Some ''Foo (2020)'', 1, Some 1)] \<and>
   (case fst (searchEpisodeByImdbId exampleEnv ''tt1'' (Some 1) (Some 1) 0 0
                (emptyAddon \<lparr> series := yearLibrary \<rparr>)) of
      Episodes es \<Rightarrow> map (\<lambda>e. (seriesName e, seriesScore e)) es
    | _ \<Rightarrow> [])
     = [(Some ''Foo (2020)'', Some 1)] \<and>
   (case fst (searchMovieByImdbId exampleEnv ''tt1'' 0 0 (emptyAddon \<lparr> movies := yearLibrary \<rparr>)) of
      Movies ms \<Rightarrow> map (\<lambda>m. (matchCandidate.title m, titleScore m, yearBonus m, finalScore m)) ms
    | _ \<Rightarrow> [])
     = [(''Foo (2020)'', 1, 1 / 10, 11 / 10)]"
  by code_simp

section \<open>Similarity scorer\<close>

text \<open>
  C5 as stated fails: with a repeated token the count of matches depends on which title
  comes first.
\<close>

theorem fuzzyMatch_symmetric_counterexample:
  "fuzzyMatch ''aaa aaa bbb'' ''aaa ccc ddd'' = 2 / 3 \<and>
   fuzzyMatch ''aaa ccc ddd'' ''aaa aaa bbb'' = 1 / 3 \<and>
   fuzzyMatch ''aaa aaa bbb'' ''aaa ccc ddd'' \<noteq> fuzzyMatch ''aaa ccc ddd'' ''aaa aaa bbb''"
  by code_simp

lemma count_members_distinct:
  "distinct xs \<Longrightarrow> length (filter (\<lambda>w. w \<in> set ys) xs) = card (set xs \<inter> set ys)"
  by (simp add: distinct_length_filter Int_commute)

lemma titleWords_examples:
  "titleWords ''Star Wars: A New Hope'' = [''star'', ''wars'', ''new'', ''hope'']"
  "titleWords ''Star Wars'' = [''star'', ''wars'']"
  by code_simp+

text \<open>
  C5, amended. The scorer is symmetric whenever neither title's filtered token list
  holds a token twice; the two lists may have different lengths.
\<close>

theorem fuzzyMatch_symmetric_distinct:
  assumes "distinct (titleWords a)" and "distinct (titleWords b)"
  shows "fuzzyMatch a b = fuzzyMatch b a"
proof -
  have "length (filter (\<lambda>w. w \<in> set (titleWords b)) (titleWords a)) =
        length (filter (\<lambda>w. w \<in> set (titleWords a)) (titleWords b))"
    using assms by (simp add: count_members_distinct Int_commute)
  then show ?thesis
    unfolding fuzzyMatch_def Let_def titleWords_def by (auto simp: max.commute)
qed

theorem fuzzyMatch_symmetric_distinct_witness:
  "distinct (titleWords ''Star Wars: A New Hope'') \<and> distinct (titleWords ''Star Wars'') \<and>
   length (titleWords ''Star Wars: A New Hope'') \<noteq> length (titleWords ''Star Wars'') \<and>
   fuzzyMatch ''Star Wars: A New Hope'' ''Star Wars'' = fuzzyMatch ''Star Wars'' ''Star Wars: A New Hope'' \<and>
   fuzzyMatch ''Star Wars'' ''Star Wars: A New Hope'' = 1 / 2"
proof -
  have d1: "distinct (titleWords ''Star Wars: A New Hope'')"
    unfolding titleWords_examples by simp
  have d2: "distinct (titleWords ''Star Wars'')"
    unfolding titleWords_examples by simp
  have l: "length (titleWords ''Star Wars: A New Hope'') \<noteq> length (titleWords ''Star Wars'')"
    unfolding titleWords_examples by simp
  have v: "fuzzyMatch ''Star Wars'' ''Star Wars: A New Hope'' = 1 / 2"
    by code_simp
  from d1 d2 l fuzzyMatch_symmetric_distinct[OF d1 d2] v show ?thesis
    by simp
qed

text \<open>
  C10. Two titles with the same normal form score exactly 1, also when the normal form
  is empty: \<^verbatim>\<open>"1080p"\<close> and \<^verbatim>\<open>"2023"\<close> both normalize to the empty string and score 1.
\<close>

theorem fuzzyMatch_equal_normal_forms:
  "(normalizeTitle a = normalizeTitle b \<longrightarrow> fuzzyMatch a b = 1) \<and>
   normalizeTitle ''1080p'' = [] \<and> normalizeTitle ''2023'' = [] \<and>
   fuzzyMatch ''1080p'' ''2023'' = 1"
proof -
  have 1: "normalizeTitle ''1080p'' = []"
    by code_simp
  have 2: "normalizeTitle ''2023'' = []"
    by code_simp
  show ?thesis
    using 1 2 by (simp add: fuzzyMatch_def)
qed

theorem fuzzyMatch_equal_normal_forms_witness:
  "normalizeTitle ''Foo (2020) HD'' = normalizeTitle ''FOO'' \<and>
   fuzzyMatch ''Foo (2020) HD'' ''FOO'' = 1"
proof -
  have e: "normalizeTitle ''Foo (2020) HD'' = normalizeTitle ''FOO''"
    by code_simp
  with fuzzyMatch_equal_normal_forms[of "''Foo (2020) HD''" "''FOO''"] show ?thesis
    by simp
qed

section \<open>Quality extractor\<close>

text \<open>
  C7 as stated fails at the empty title: the extractor answers (0, SD) before any rule
  is tried, where the table gives the default (3, HD).
\<close>

theorem extractQuality_empty_counterexample:
  "extractQuality [] = (0, ''SD'') \<and> qualitySpec [] = (3, ''HD'') \<and>
   extractQuality [] \<noteq> qualitySpec []"
  by code_simp

lemma toLowerCase_patterns:
  "toLowerCase ''4k'' = ''4k''" "toLowerCase ''2160p'' = ''2160p''"
  "toLowerCase ''uhd'' = ''uhd''" "toLowerCase ''1080p'' = ''1080p''"
  "toLowerCase ''fhd'' = ''fhd''" "toLowerCase ''720p'' = ''720p''"
  "toLowerCase ''hd'' = ''hd''" "toLowerCase ''480p'' = ''480p''"
  "toLowerCase ''sd'' = ''sd''"
  by code_simp+

text \<open>
  C7, amended. For every non-empty title the extractor is the table of the
  specification: case-insensitive substring checks in the order 4k|2160p|uhd,
  1080p|fhd, 720p|hd, 480p|sd, the first matching rule wins, and (3, HD) otherwise.
  The empty title gets (0, SD).
\<close>

theorem extractQuality_table:
  "extractQuality t = (if t = [] then (0, ''SD'') else qualitySpec t)"
  by (simp add: extractQuality_def qualitySpec_def qualityRules_def containsCI_def
      includes_str_def Let_def toLowerCase_patterns)

theorem extractQuality_table_witness:
  "''Mission HD'' \<noteq> [] \<and> extractQuality ''Mission HD'' = qualitySpec ''Mission HD'' \<and>
   qualitySpec ''Mission HD'' = (4, ''720p'')"
proof -
  have "qualitySpec ''Mission HD'' = (4, ''720p'')"
    by code_simp
  with extractQuality_table[of "''Mission HD''"] show ?thesis
    by simp
qed

section \<open>The two best-match routines\<close>

text \<open>
  C9 as stated fails: with two items of equal title score the earlier routine keeps the
  first, the current one the first of the ranking, which prefers the higher quality tier.
\<close>

theorem findBestMatch_versions_counterexample:
  "fst (findBestMatchOld ''Foo'' exampleLibrary2)
     = Some \<lparr> name = Some ''Foo'', title = None, item_id = Some ''u1'', series_id = None \<rparr> \<and>
   fst (findBestMatch ''Foo'' exampleLibrary2)
     = Some \<lparr> name = Some ''Foo 4K'', title = None, item_id = Some ''u2'', series_id = None \<rparr> \<and>
   fst (findBestMatchOld ''Foo'' exampleLibrary2) \<noteq> fst (findBestMatch ''Foo'' exampleLibrary2)"
  by code_simp

lemma collectMatches_filter:
  "collectMatches T Y lib =
     map (\<lambda>it. makeMatch it (itemTitleOf it) (fuzzyMatch T (itemTitleOf it)) Y)
       (filter (clears T) lib)"
  by (induction lib) (auto simp: Let_def clears_def)

lemma findBestMatchLoop_none:
  "filter (clears T) lib = [] \<Longrightarrow> findBestMatchLoop T lib b = b"
proof (induction lib arbitrary: b)
  case Nil
  then show ?case by simp
next
  case (Cons it rest)
  then show ?case
    by (cases b) (auto simp: Let_def clears_def split: if_splits)
qed

lemma findBestMatchLoop_some: "fst (findBestMatchLoop T lib (Some y, s)) \<noteq> None"
  by (induction lib arbitrary: y s) (auto simp: Let_def)

lemma findBestMatchOld_none_iff:
  "fst (findBestMatchLoop T lib (None, 0)) = None \<longleftrightarrow> filter (clears T) lib = []"
proof (induction lib)
  case Nil
  then show ?case by simp
next
  case (Cons it rest)
  show ?case
  proof (cases "clears T it")
    case True
    then have "fuzzyMatch T (itemTitleOf it) > 0"
      by (simp add: clears_def matchingThreshold_def)
    with True show ?thesis
      by (simp add: Let_def clears_def findBestMatchLoop_some)
  next
    case False
    with Cons show ?thesis
      by (auto simp: Let_def clears_def)
  qed
qed

lemma sortBy_Nil_iff: "sortBy cmp xs = [] \<longleftrightarrow> xs = []"
  using length_sortBy[of cmp xs] by (metis length_0_conv)

lemma findBestMatch_none_iff:
  "fst (findBestMatch T lib) = None \<longleftrightarrow> filter (clears T) lib = []"
proof -
  have "findAllMatches T None lib = [] \<longleftrightarrow> filter (clears T) lib = []"
    by (simp add: findAllMatches_def sortBy_Nil_iff collectMatches_filter)
  then show ?thesis
    by (auto simp: findBestMatch_def split: list.splits)
qed

lemma filter_clears_Nil: "filter (clears T) lib = [] \<longleftrightarrow> (\<forall>it \<in> set lib. \<not> clears T it)"
  by (simp add: filter_empty_conv)

lemma findBestMatchLoop_append:
  "findBestMatchLoop T (xs @ ys) b = findBestMatchLoop T ys (findBestMatchLoop T xs b)"
  by (induction xs arbitrary: b) (auto simp: Let_def)

lemma findBestMatchLoop_keep:
  "\<forall>y \<in> set lib. clears T y \<longrightarrow> fuzzyMatch T (itemTitleOf y) \<le> bs \<Longrightarrow>
   findBestMatchLoop T lib (bm, bs) = (bm, bs)"
  by (induction lib) (auto simp: Let_def clears_def)

lemma findBestMatchLoop_below:
  "bs < s \<Longrightarrow> \<forall>y \<in> set lib. clears T y \<longrightarrow> fuzzyMatch T (itemTitleOf y) < s \<Longrightarrow>
   snd (findBestMatchLoop T lib (bm, bs)) < s"
  by (induction lib arbitrary: bm bs) (auto simp: Let_def clears_def)

lemma findBestMatchOld_dominant:
  assumes x: "clears T x"
    and pre: "\<forall>y \<in> set pre. clears T y \<longrightarrow> fuzzyMatch T (itemTitleOf y) < fuzzyMatch T (itemTitleOf x)"
    and post: "\<forall>y \<in> set post. clears T y \<longrightarrow> fuzzyMatch T (itemTitleOf y) < fuzzyMatch T (itemTitleOf x)"
  shows "findBestMatchOld T (pre @ x # post) = (Some x, fuzzyMatch T (itemTitleOf x))"
proof -
  let ?s = "fuzzyMatch T (itemTitleOf x)"
  obtain bm bs where b: "findBestMatchLoop T pre (None, 0) = (bm, bs)"
    by (cases "findBestMatchLoop T pre (None, 0)")
  have "0 < ?s"
    using x by (simp add: clears_def matchingThreshold_def)
  from findBestMatchLoop_below[OF this pre, of None] b have lt: "bs < ?s"
    by simp
  have keep: "findBestMatchLoop T post (Some x, ?s) = (Some x, ?s)"
    by (rule findBestMatchLoop_keep) (use post in auto)
  have "findBestMatchLoop T (x # post) (bm, bs) = (Some x, ?s)"
    using lt x keep by (simp add: Let_def clears_def)
  then show ?thesis
    by (simp add: findBestMatchOld_def findBestMatchLoop_append b)
qed

lemma insertBy_front: "ys = [] \<or> cmp m (hd ys) \<le> 0 \<Longrightarrow> insertBy cmp m ys = m # ys"
  by (cases ys) auto

lemma foldr_insertBy_head:
  "\<forall>a \<in> set as. cmp a m > 0 \<Longrightarrow> \<exists>rest. foldr (insertBy cmp) as (m # ys) = m # rest"
proof (induction as)
  case Nil
  then show ?case by simp
next
  case (Cons a as)
  then obtain rest where "foldr (insertBy cmp) as (m # ys) = m # rest"
    by auto
  moreover have "cmp a m > 0"
    using Cons.prems by simp
  ultimately show ?case
    by simp
qed

lemma sortBy_dominant:
  assumes as: "\<forall>a \<in> set as. cmp a m > 0"
    and bs: "\<forall>b \<in> set bs. cmp m b \<le> 0"
  shows "\<exists>rest. sortBy cmp (as @ m # bs) = m # rest"
proof -
  have "sortBy cmp bs = [] \<or> cmp m (hd (sortBy cmp bs)) \<le> 0"
  proof (cases "sortBy cmp bs")
    case Nil
    then show ?thesis by simp
  next
    case (Cons b rest)
    then have "b \<in> set bs"
      using set_sortBy[of cmp bs] by auto
    with bs Cons show ?thesis by simp
  qed
  then have "insertBy cmp m (sortBy cmp bs) = m # sortBy cmp bs"
    by (rule insertBy_front)
  then have "sortBy cmp (as @ m # bs) = foldr (insertBy cmp) as (m # sortBy cmp bs)"
    by (simp add: sortBy_def)
  moreover obtain rest where "foldr (insertBy cmp) as (m # sortBy cmp bs) = m # rest"
    using foldr_insertBy_head[of as cmp m "sortBy cmp bs"] as by blast
  ultimately show ?thesis
    by simp
qed

lemma makeMatch_None:
  "item (makeMatch it t s None) = it" "finalScore (makeMatch it t s None) = s"
  by (simp_all add: makeMatch_def Let_def yearBonusOf_def)

lemma findBestMatch_dominant:
  assumes x: "clears T x"
    and pre: "\<forall>y \<in> set pre. clears T y \<longrightarrow>
                fuzzyMatch T (itemTitleOf y) + 5 / 100 < fuzzyMatch T (itemTitleOf x)"
    and post: "\<forall>y \<in> set post. clears T y \<longrightarrow>
                fuzzyMatch T (itemTitleOf y) + 5 / 100 < fuzzyMatch T (itemTitleOf x)"
  shows "findBestMatch T (pre @ x # post) = (Some x, fuzzyMatch T (itemTitleOf x))"
proof -
  let ?mk = "\<lambda>it. makeMatch it (itemTitleOf it) (fuzzyMatch T (itemTitleOf it)) None"
  let ?as = "map ?mk (filter (clears T) pre)"
  let ?bs = "map ?mk (filter (clears T) post)"
  have c: "collectMatches T None (pre @ x # post) = ?as @ ?mk x # ?bs"
    using x by (simp add: collectMatches_filter)
  have a: "\<forall>a \<in> set ?as. compareMatches a (?mk x) > 0"
    using pre by (auto simp: compareMatches_def makeMatch_None)
  have b: "\<forall>b \<in> set ?bs. compareMatches (?mk x) b \<le> 0"
    using post by (auto simp: compareMatches_def makeMatch_None)
  from sortBy_dominant[OF a b] obtain rest
    where "sortBy compareMatches (?as @ ?mk x # ?bs) = ?mk x # rest"
    by blast
  then show ?thesis
    by (simp add: findBestMatch_def findAllMatches_def c makeMatch_None)
qed

text \<open>
  C9, amended. Each routine returns no match exactly when no item of the library clears
  the threshold, and then both return the same empty result. When one item that clears
  the threshold has a title score more than 0.05 above that of every other item that
  clears it, both routines return this item with its title score; so they do when at most
  one item of the library clears the threshold.
\<close>

theorem findBestMatch_versions_agree:
  "(fst (findBestMatchOld T lib) = None \<longleftrightarrow> (\<forall>it \<in> set lib. \<not> clears T it)) \<and>
   (fst (findBestMatch T lib) = None \<longleftrightarrow> (\<forall>it \<in> set lib. \<not> clears T it)) \<and>
   ((\<forall>it \<in> set lib. \<not> clears T it) \<longrightarrow>
      findBestMatchOld T lib = (None, 0) \<and> findBestMatch T lib = (None, 0)) \<and>
   (length (filter (clears T) lib) \<le> 1 \<longrightarrow> findBestMatchOld T lib = findBestMatch T lib) \<and>
   (\<forall>pre x post.
      lib = pre @ x # post \<and> clears T x \<and>
      (\<forall>y \<in> set (pre @ post).
         clears T y \<longrightarrow> fuzzyMatch T (itemTitleOf y) + 5 / 100 < fuzzyMatch T (itemTitleOf x)) \<longrightarrow>
      findBestMatchOld T lib = (Some x, fuzzyMatch T (itemTitleOf x)) \<and>
      findBestMatch T lib = (Some x, fuzzyMatch T (itemTitleOf x)))"
proof (intro conjI)
  show "fst (findBestMatchOld T lib) = None \<longleftrightarrow> (\<forall>it \<in> set lib. \<not> clears T it)"
    by (simp only: findBestMatchOld_def findBestMatchOld_none_iff filter_clears_Nil)
  show "fst (findBestMatch T lib) = None \<longleftrightarrow> (\<forall>it \<in> set lib. \<not> clears T it)"
    by (simp only: findBestMatch_none_iff filter_clears_Nil)
  show "(\<forall>it \<in> set lib. \<not> clears T it) \<longrightarrow>
      findBestMatchOld T lib = (None, 0) \<and> findBestMatch T lib = (None, 0)"
  proof
    assume "\<forall>it \<in> set lib. \<not> clears T it"
    then have "filter (clears T) lib = []"
      by (simp only: filter_clears_Nil)
    then show "findBestMatchOld T lib = (None, 0) \<and> findBestMatch T lib = (None, 0)"
      by (simp add: findBestMatchOld_def findBestMatchLoop_none findBestMatch_def
          findAllMatches_def collectMatches_filter sortBy_def)
  qed
  have dom: "findBestMatchOld T lib = (Some x, fuzzyMatch T (itemTitleOf x)) \<and>
             findBestMatch T lib = (Some x, fuzzyMatch T (itemTitleOf x))"
    if l: "lib = pre @ x # post" and x: "clears T x"
      and o: "\<forall>y \<in> set (pre @ post).
         clears T y \<longrightarrow> fuzzyMatch T (itemTitleOf y) + 5 / 100 < fuzzyMatch T (itemTitleOf x)"
    for pre x post
  proof
    have "\<forall>y \<in> set pre. clears T y \<longrightarrow> fuzzyMatch T (itemTitleOf y) < fuzzyMatch T (itemTitleOf x)"
      "\<forall>y \<in> set post. clears T y \<longrightarrow> fuzzyMatch T (itemTitleOf y) < fuzzyMatch T (itemTitleOf x)"
      using o by fastforce+
    from findBestMatchOld_dominant[OF x this]
    show "findBestMatchOld T lib = (Some x, fuzzyMatch T (itemTitleOf x))"
      by (simp only: l)
    have "\<forall>y \<in> set pre. clears T y \<longrightarrow>
            fuzzyMatch T (itemTitleOf y) + 5 / 100 < fuzzyMatch T (itemTitleOf x)"
      "\<forall>y \<in> set post. clears T y \<longrightarrow>
            fuzzyMatch T (itemTitleOf y) + 5 / 100 < fuzzyMatch T (itemTitleOf x)"
      using o by auto
    from findBestMatch_dominant[OF x this]
    show "findBestMatch T lib = (Some x, fuzzyMatch T (itemTitleOf x))"
      by (simp only: l)
  qed
  then show "\<forall>pre x post.
      lib = pre @ x # post \<and> clears T x \<and>
      (\<forall>y \<in> set (pre @ post).
         clears T y \<longrightarrow> fuzzyMatch T (itemTitleOf y) + 5 / 100 < fuzzyMatch T (itemTitleOf x)) \<longrightarrow>
      findBestMatchOld T lib = (Some x, fuzzyMatch T (itemTitleOf x)) \<and>
      findBestMatch T lib = (Some x, fuzzyMatch T (itemTitleOf x))"
    by blast
  show "length (filter (clears T) lib) \<le> 1 \<longrightarrow> findBestMatchOld T lib = findBestMatch T lib"
  proof
    assume "length (filter (clears T) lib) \<le> 1"
    then consider "filter (clears T) lib = []" | x where "filter (clears T) lib = [x]"
      by (cases "filter (clears T) lib") (auto simp: length_Suc_conv)
    then show "findBestMatchOld T lib = findBestMatch T lib"
    proof cases
      case 1
      then show ?thesis
        by (simp add: findBestMatchOld_def findBestMatchLoop_none findBestMatch_def
            findAllMatches_def collectMatches_filter sortBy_def)
    next
      case (2 x)
      then obtain pre post where l: "lib = pre @ x # post"
        and "filter (clears T) pre = []" "filter (clears T) post = []" and x: "clears T x"
        by (auto simp: filter_eq_Cons_iff)
      then have "\<forall>y \<in> set (pre @ post).
         clears T y \<longrightarrow> fuzzyMatch T (itemTitleOf y) + 5 / 100 < fuzzyMatch T (itemTitleOf x)"
        by (auto simp: filter_empty_conv)
      from dom[OF l x this] show ?thesis
        by simp
    qed
  qed
qed

lemma exampleLibrary3_scores:
  "fuzzyMatch ''Red Blue Green Black White'' (itemTitleOf (exampleLibrary3 ! 0)) = 4 / 5"
  "fuzzyMatch ''Red Blue Green Black White'' (itemTitleOf (exampleLibrary3 ! 1)) = 1"
  "fuzzyMatch ''Red Blue Green Black White'' (itemTitleOf (exampleLibrary3 ! 2)) = 0"
  by code_simp+

theorem findBestMatch_versions_agree_witness:
  "exampleLibrary3 = [exampleLibrary3 ! 0] @ exampleLibrary3 ! 1 # [exampleLibrary3 ! 2] \<and>
   clears ''Red Blue Green Black White'' (exampleLibrary3 ! 0) \<and>
   clears ''Red Blue Green Black White'' (exampleLibrary3 ! 1) \<and>
   \<not> clears ''Red Blue Green Black White'' (exampleLibrary3 ! 2) \<and>
   fuzzyMatch ''Red Blue Green Black White'' (itemTitleOf (exampleLibrary3 ! 0)) + 5 / 100
     < fuzzyMatch ''Red Blue Green Black White'' (itemTitleOf (exampleLibrary3 ! 1)) \<and>
   findBestMatchOld ''Red Blue Green Black White'' exampleLibrary3
     = (Some \<lparr> name = Some ''Red Blue Green Black White'', title = None,
                item_id = Some ''u2'', series_id = None \<rparr>, 1) \<and>
   findBestMatch ''Red Blue Green Black White'' exampleLibrary3
     = (Some \<lparr> name = Some ''Red Blue Green Black White'', title = None,
                item_id = Some ''u2'', series_id = None \<rparr>, 1)"
proof -
  let ?T = "''Red Blue Green Black White''"
  let ?a = "exampleLibrary3 ! 0"
  let ?b = "exampleLibrary3 ! 1"
  let ?c = "exampleLibrary3 ! 2"
  have l: "exampleLibrary3 = [?a] @ ?b # [?c]"
    by (simp add: exampleLibrary3_def)
  have c: "clears ?T ?a" "clears ?T ?b" "\<not> clears ?T ?c"
    unfolding clears_def matchingThreshold_def exampleLibrary3_scores by simp_all
  have d: "fuzzyMatch ?T (itemTitleOf ?a) + 5 / 100 < fuzzyMatch ?T (itemTitleOf ?b)"
    unfolding exampleLibrary3_scores by simp
  have o: "\<forall>y \<in> set ([?a] @ [?c]).
             clears ?T y \<longrightarrow> fuzzyMatch ?T (itemTitleOf y) + 5 / 100 < fuzzyMatch ?T (itemTitleOf ?b)"
    using c(3) d by simp
  note dominant = findBestMatch_versions_agree[of ?T exampleLibrary3, THEN conjunct2,
      THEN conjunct2, THEN conjunct2, THEN conjunct2, rule_format, of "[?a]" ?b "[?c]"]
  have both: "findBestMatchOld ?T exampleLibrary3 = (Some ?b, fuzzyMatch ?T (itemTitleOf ?b)) \<and>
        findBestMatch ?T exampleLibrary3 = (Some ?b, fuzzyMatch ?T (itemTitleOf ?b))"
    by (rule dominant) (use l c(2) o in blast)
  have b: "?b = \<lparr> name = Some ''Red Blue Green Black White'', title = None,
                   item_id = Some ''u2'', series_id = None \<rparr>"
    by (simp add: exampleLibrary3_def)
  have r: "findBestMatchOld ?T exampleLibrary3
             = (Some \<lparr> name = Some ''Red Blue Green Black White'', title = None,
                        item_id = Some ''u2'', series_id = None \<rparr>, 1)"
    "findBestMatch ?T exampleLibrary3
             = (Some \<lparr> name = Some ''Red Blue Green Black White'', title = None,
                        item_id = Some ''u2'', series_id = None \<rparr>, 1)"
    using both unfolding exampleLibrary3_scores(2) unfolding b by simp_all
  from l c d r show ?thesis
    by blast
qed

section \<open>The ranker leaves the library alone\<close>

lemma push_frame: "a \<noteq> ma \<Longrightarrow> heap (push ma m s) a = heap s a"
  by (auto simp: push_def split: option.splits obj.splits)

lemma collectMatchesH_frame:
  "a \<noteq> ma \<Longrightarrow> heap (collectMatchesH T Y refs ma s) a = heap s a"
  by (induction refs arbitrary: s) (auto simp: Let_def push_frame)

lemma sortInPlace_frame: "a \<noteq> ma \<Longrightarrow> heap (sortInPlace ma s) a = heap s a"
  by (auto simp: sortInPlace_def split: option.splits obj.splits)

lemma findAllMatchesH_frame:
  assumes "wfStore s" and "heap s a \<noteq> None"
  shows "heap (snd (findAllMatchesH T Y lib s)) a = heap s a"
proof -
  from assms have "a < nextAddr s"
    by (simp add: wfStore_def)
  then have "a \<noteq> nextAddr s"
    by simp
  then show ?thesis
    by (simp add: findAllMatchesH_def alloc_def Let_def sortInPlace_frame collectMatchesH_frame)
qed

lemma findBestMatchH_store:
  "snd (findBestMatchH T lib s) = snd (findAllMatchesH T None lib s)"
  by (auto simp: findBestMatchH_def Let_def split: prod.splits option.splits obj.splits list.splits)

lemma titleOfRef_push:
  "titleOfRef (push ma m s) a =
     (if a = ma \<and> (\<exists>ms. heap s ma = Some (MatchArray ms)) then [] else titleOfRef s a)"
  by (auto simp: titleOfRef_def push_def split: option.splits obj.splits)

text \<open>
  What the loop leaves in the array it pushes onto: the candidates of the items that
  clear the threshold, in library order, as in the ranker over values.
\<close>

lemma collectMatchesH_result:
  "heap s ma = Some (MatchArray acc) \<Longrightarrow> ma \<notin> set refs \<Longrightarrow>
   heap (collectMatchesH T Y refs ma s) ma =
     Some (MatchArray (acc @
       map (\<lambda>a. makeMatch a (titleOfRef s a) (fuzzyMatch T (titleOfRef s a)) Y)
         (filter (\<lambda>a. fuzzyMatch T (titleOfRef s a) \<ge> matchingThreshold) refs)))"
proof (induction refs arbitrary: s acc)
  case Nil
  then show ?case by simp
next
  case (Cons a rest)
  have t: "\<And>m b. b \<in> set (a # rest) \<Longrightarrow> titleOfRef (push ma m s) b = titleOfRef s b"
    using Cons.prems by (auto simp: titleOfRef_push)
  show ?case
  proof (cases "fuzzyMatch T (titleOfRef s a) \<ge> matchingThreshold")
    case True
    let ?m = "makeMatch a (titleOfRef s a) (fuzzyMatch T (titleOfRef s a)) Y"
    have h: "heap (push ma ?m s) ma = Some (MatchArray (acc @ [?m]))"
      using Cons.prems by (simp add: push_def)
    have "ma \<notin> set rest"
      using Cons.prems by simp
    from Cons.IH[OF h this] True t show ?thesis
      by (simp add: Let_def cong: map_cong filter_cong)
  next
    case False
    with Cons show ?thesis
      by (simp add: Let_def)
  qed
qed

lemma exampleStore_wf: "wfStore exampleStore"
  by (simp add: wfStore_def exampleStore_def)

text \<open>
  C8. Ranking reads the library and writes none of it: in a well-formed store, every
  object that exists before \<^verbatim>\<open>findAllMatches\<close> or \<^verbatim>\<open>findBestMatch\<close> runs (the library
  array and every item it refers to among them) is the same object afterwards; the
  routines write to the array they allocate only.
\<close>

theorem ranking_leaves_library_unchanged:
  "wfStore s \<Longrightarrow> heap s a \<noteq> None \<Longrightarrow>
     heap (snd (findAllMatchesH T Y lib s)) a = heap s a \<and>
     heap (snd (findBestMatchH T lib s)) a = heap s a"
  by (simp add: findBestMatchH_store findAllMatchesH_frame)

theorem ranking_leaves_library_unchanged_witness:
  "wfStore exampleStore \<and> heap exampleStore 2 \<noteq> None \<and>
   heap (snd (findAllMatchesH ''Foo'' None 2 exampleStore)) 2 = Some (ItemArray [0, 1]) \<and>
   heap (snd (findBestMatchH ''Foo'' 2 exampleStore)) 2 = Some (ItemArray [0, 1])"
proof -
  have h: "heap exampleStore 2 = Some (ItemArray [0, 1])"
    by (simp add: exampleStore_def)
  then have ne: "heap exampleStore 2 \<noteq> None"
    by simp
  from ranking_leaves_library_unchanged[OF exampleStore_wf ne, of "''Foo''" None 2]
    exampleStore_wf h
  show ?thesis
    by simp
qed

section \<open>The result cache\<close>

text \<open>
  C1 as stated fails, for movies and for episodes: a resolution that finds no candidate
  stores nothing, and resolving the same identifier one millisecond later asks the
  resolver and scans the library again (and refreshes it, where it is empty).
\<close>

theorem negative_cache_counterexample:
  "fst (searchMovieByImdbId exampleEnv ''tt1'' 0 0 emptyAddon) = Movies [] \<and>
   (1 :: int) - 0 < 3600000 \<and>
   trace (snd (searchMovieByImdbId exampleEnv ''tt1'' 0 0 emptyAddon))
     = [Resolve ''tt1'', Refresh, Scan] \<and>
   trace (snd (searchMovieByImdbId exampleEnv ''tt1'' 1 1
                 (snd (searchMovieByImdbId exampleEnv ''tt1'' 0 0 emptyAddon))))
     = [Resolve ''tt1'', Refresh, Scan, Resolve ''tt1'', Refresh, Scan] \<and>
   fst (searchEpisodeByImdbId exampleEnv ''tt1'' (Some 1) (Some 7) 0 0 exampleSeriesAddon)
     = NoResult \<and>
   trace (snd (searchEpisodeByImdbId exampleEnv ''tt1'' (Some 1) (Some 7) 0 0 exampleSeriesAddon))
     = [Resolve ''tt1'', Scan] \<and>
   trace (snd (searchEpisodeByImdbId exampleEnv ''tt1'' (Some 1) (Some 7) 1 1
                 (snd (searchEpisodeByImdbId exampleEnv ''tt1'' (Some 1) (Some 7) 0 0
                        exampleSeriesAddon))))
     = [Resolve ''tt1'', Scan, Resolve ''tt1'', Scan]"
  by code_simp

lemma cacheLookup_Some:
  "cacheLookup s k now = Some r \<longleftrightarrow>
     (\<exists>c. realTimeCache s k = Some c \<and> now - timestamp c < 3600000 \<and> r = result c)"
  by (auto simp: cacheLookup_def split: option.splits)

lemma cacheLookup_later:
  "cacheLookup s k now = None \<Longrightarrow> realTimeCache s' = realTimeCache s \<Longrightarrow> now \<le> now' \<Longrightarrow>
   cacheLookup s' k now' = None"
  by (auto simp: cacheLookup_def split: option.splits if_splits)

lemma searchMovieByImdbId_cases:
  "searchMovieByImdbId e k now later s = (r, s') \<Longrightarrow>
    (cacheLookup s k now = Some r \<and> s' = s) \<or>
    (cacheLookup s k now = None \<and>
     (emptyResult r \<and> realTimeCache s' = realTimeCache s \<or>
      \<not> emptyResult r \<and> realTimeCache s' = (realTimeCache s)(k \<mapsto> \<lparr> result = r, timestamp = later \<rparr>)) \<and>
     (\<exists>rest. trace s' = trace s @ Resolve k # rest))"
  unfolding searchMovieByImdbId_def getOfficialTitle_def updateData_def Let_def emptyResult_def
  by (auto split: option.splits if_splits prod.splits omdbReply.splits)

lemma ensureSeriesInfo_frame:
  "ensureSeriesInfo e sid s = (info, s') \<Longrightarrow> realTimeCache s' = realTimeCache s \<and> trace s' = trace s"
  by (auto simp: ensureSeriesInfo_def split: if_splits option.splits seriesFetch.splits)

lemma collectEpisodes_frame:
  "collectEpisodes e se ep ms s = (found, s') \<Longrightarrow> realTimeCache s' = realTimeCache s \<and> trace s' = trace s"
proof (induction ms arbitrary: s found s')
  case Nil
  then show ?case by simp
next
  case (Cons m rest)
  show ?case
  proof (cases "seriesIdOf (seriesItem m)")
    case None
    with Cons show ?thesis by simp
  next
    case (Some sid)
    obtain info s1 where e1: "ensureSeriesInfo e sid s = (info, s1)"
      by (cases "ensureSeriesInfo e sid s") auto
    obtain others s2 where e2: "collectEpisodes e se ep rest s1 = (others, s2)"
      by (cases "collectEpisodes e se ep rest s1") auto
    from Cons.prems Some e1 e2 have "s' = s2" by (simp add: Let_def)
    with Cons.IH[OF e2] ensureSeriesInfo_frame[OF e1] show ?thesis by simp
  qed
qed

lemma searchEpisodeByImdbId_cases:
  assumes run: "searchEpisodeByImdbId e i se ep now later s = (r, s')"
  defines "k \<equiv> episodeCacheKey i se ep"
  shows "(cacheLookup s k now = Some r \<and> s' = s) \<or>
    (cacheLookup s k now = None \<and>
     (emptyResult r \<and> realTimeCache s' = realTimeCache s \<or>
      \<not> emptyResult r \<and> realTimeCache s' = (realTimeCache s)(k \<mapsto> \<lparr> result = r, timestamp = later \<rparr>)) \<and>
     (\<exists>rest. trace s' = trace s @ Resolve i # rest))"
proof (cases "cacheLookup s k now")
  case (Some r0)
  with run show ?thesis by (simp add: searchEpisodeByImdbId_def k_def)
next
  case None
  obtain od s1 where g: "getOfficialTitle e i s = (od, s1)"
    by (cases "getOfficialTitle e i s") auto
  then have g1: "realTimeCache s1 = realTimeCache s" "trace s1 = trace s @ [Resolve i]"
    by (auto simp: getOfficialTitle_def Let_def split: option.splits if_splits omdbReply.splits)
  show ?thesis
  proof (cases od)
    case None
    with run \<open>cacheLookup s k now = None\<close> g g1 show ?thesis
      by (simp add: searchEpisodeByImdbId_def k_def emptyResult_def)
  next
    case (Some omdb)
    let ?s2 = "if length (series s1) = 0 then updateData e s1 else s1"
    let ?ms = "findAllMatchesStr (toNumber e) (Title omdb) (Year omdb) (series ?s2)"
    let ?s3 = "?s2\<lparr> trace := trace ?s2 @ [Scan] \<rparr>"
    have s3: "realTimeCache ?s3 = realTimeCache s" "\<exists>rest. trace ?s3 = trace s @ Resolve i # rest"
      using g1 by (auto simp: updateData_def Let_def split: prod.splits)
    show ?thesis
    proof (cases "length ?ms > 0")
      case False
      with run \<open>cacheLookup s k now = None\<close> g Some s3 show ?thesis
        by (auto simp: searchEpisodeByImdbId_def k_def emptyResult_def Let_def)
    next
      case True
      obtain eps s4 where c: "collectEpisodes e se ep ?ms ?s3 = (eps, s4)"
        by (cases "collectEpisodes e se ep ?ms ?s3") auto
      from collectEpisodes_frame[OF c] s3
      have s4: "realTimeCache s4 = realTimeCache s" "\<exists>rest. trace s4 = trace s @ Resolve i # rest"
        by auto
      show ?thesis
      proof (cases "length eps > 0")
        case False
        with run \<open>cacheLookup s k now = None\<close> g Some True c s4 show ?thesis
          by (auto simp: searchEpisodeByImdbId_def k_def emptyResult_def Let_def)
      next
        case l: True
        then have "take 10 (sortBy compareEpisodes eps) \<noteq> []"
          by (simp add: sortBy_Nil_iff)
        with run \<open>cacheLookup s k now = None\<close> g Some True c s4 l show ?thesis
          by (auto simp: searchEpisodeByImdbId_def k_def emptyResult_def Let_def)
      qed
    qed
  qed
qed

lemma searchMovieByImdbId_hit:
  "cacheLookup s k now = Some r \<Longrightarrow> searchMovieByImdbId e k now later s = (r, s)"
  by (simp add: searchMovieByImdbId_def)

lemma searchEpisodeByImdbId_hit:
  "cacheLookup s (episodeCacheKey i se ep) now = Some r \<Longrightarrow>
   searchEpisodeByImdbId e i se ep now later s = (r, s)"
  by (simp add: searchEpisodeByImdbId_def)

lemma cachesMatchesOnlyI:
  fixes f :: "int \<Rightarrow> int \<Rightarrow> addon \<Rightarrow> resolution \<times> addon"
  assumes cases: "\<And>now later s r s'. f now later s = (r, s') \<Longrightarrow>
      (cacheLookup s k now = Some r \<and> s' = s) \<or>
      (cacheLookup s k now = None \<and>
       (emptyResult r \<and> realTimeCache s' = realTimeCache s \<or>
        \<not> emptyResult r \<and>
          realTimeCache s' = (realTimeCache s)(k \<mapsto> \<lparr> result = r, timestamp = later \<rparr>)) \<and>
       (\<exists>rest. trace s' = trace s @ Resolve i # rest))"
    and hit: "\<And>now later s r. cacheLookup s k now = Some r \<Longrightarrow> f now later s = (r, s)"
  shows "cachesMatchesOnly f k i"
  unfolding cachesMatchesOnly_def
proof (intro allI impI conjI)
  fix now later s r s'
  assume run: "f now later s = (r, s')" and ne: "\<not> emptyResult r"
  from cases[OF run] ne
  obtain c where c: "realTimeCache s' k = Some c" "result c = r"
    by (auto simp: cacheLookup_Some)
  have "\<forall>now' later'. now' - timestamp c < 3600000 \<longrightarrow> f now' later' s' = (r, s')"
    using c by (auto intro!: hit simp: cacheLookup_Some)
  with c show "\<exists>c. realTimeCache s' k = Some c \<and> result c = r \<and>
                (\<forall>now' later'. now' - timestamp c < 3600000 \<longrightarrow> f now' later' s' = (r, s'))"
    by blast
next
  fix now later s r s'
  assume run: "f now later s = (r, s')" and em: "emptyResult r"
  from cases[OF run] em show "realTimeCache s' = realTimeCache s"
    by (auto simp: fun_upd_def)
next
  fix now later s r s' now' later'
  assume run: "f now later s = (r, s')"
    and a: "emptyResult r \<and> trace s' \<noteq> trace s" and le: "now \<le> now'"
  with cases[OF run]
  have miss: "cacheLookup s k now = None" and same: "realTimeCache s' = realTimeCache s"
    by auto
  from cacheLookup_later[OF miss same le] have miss2: "cacheLookup s' k now' = None" .
  obtain r2 s2 where run2: "f now' later' s' = (r2, s2)"
    by (cases "f now' later' s'") auto
  from cases[OF run2] miss2 have "\<exists>rest. trace s2 = trace s' @ Resolve i # rest"
    by auto
  with run2 show "\<exists>rest. trace (snd (f now' later' s')) = trace s' @ Resolve i # rest"
    by simp
qed

lemma parseInt_example: "parseInt ''2020'' = Some 2020"
  by code_simp

lemma exampleAddon_run:
  "fst (searchMovieByImdbId exampleEnv ''tt1'' 0 7 exampleAddon)
     = Movies (take 5 (findAllMatches ''Foo'' (Some 2020) exampleLibrary))"
proof -
  have "length (findAllMatches ''Foo'' (Some 2020) exampleLibrary) = 3"
    using arg_cong[OF exampleLibrary_ranking, of length] by simp
  then have "findAllMatches ''Foo'' (Some 2020) exampleLibrary \<noteq> []"
    by auto
  moreover have "exampleLibrary \<noteq> []"
    by (simp add: exampleLibrary_def)
  ultimately show ?thesis
    by (simp add: searchMovieByImdbId_def cacheLookup_def exampleEnv_def exampleAddon_def
        emptyAddon_def getOfficialTitle_def Let_def parseInt_example)
qed

lemma exampleSeriesAddon_run:
  "\<not> emptyResult (fst (searchEpisodeByImdbId exampleEnv ''tt1'' (Some 1) (Some 1) 0 7
                          exampleSeriesAddon))"
  by code_simp

text \<open>
  C1, amended. Only a result that is not empty is cached, by movie and by episode
  resolution alike. When a resolution returns at least one candidate, the result cache
  holds that list under the request key (the identifier, or identifier:season:episode),
  and every later resolution of the same request less than 3600000 ms after the entry's
  timestamp returns the same list and leaves the whole state as it is: no resolver call,
  no refresh, no scan. When a resolution returns no candidate (an empty list or null),
  the result cache is left as it was; if that resolution was a cache miss, every later
  resolution of the request is a miss again and calls the resolver.
\<close>

theorem resultCache_keeps_matches_only:
  "cachesMatchesOnly (searchMovieByImdbId e imdbId) imdbId imdbId \<and>
   cachesMatchesOnly (searchEpisodeByImdbId e imdbId season epNo)
     (episodeCacheKey imdbId season epNo) imdbId"
proof
  show "cachesMatchesOnly (searchMovieByImdbId e imdbId) imdbId imdbId"
    by (rule cachesMatchesOnlyI) (erule searchMovieByImdbId_cases, erule searchMovieByImdbId_hit)
next
  show "cachesMatchesOnly (searchEpisodeByImdbId e imdbId season epNo)
          (episodeCacheKey imdbId season epNo) imdbId"
    by (rule cachesMatchesOnlyI)
       (erule searchEpisodeByImdbId_cases, erule searchEpisodeByImdbId_hit)
qed

theorem resultCache_keeps_matches_only_witness:
  "\<not> emptyResult (fst (searchMovieByImdbId exampleEnv ''tt1'' 0 7 exampleAddon)) \<and>
   searchMovieByImdbId exampleEnv ''tt1'' 3600006 3600009
       (snd (searchMovieByImdbId exampleEnv ''tt1'' 0 7 exampleAddon))
     = searchMovieByImdbId exampleEnv ''tt1'' 0 7 exampleAddon \<and>
   \<not> emptyResult (fst (searchEpisodeByImdbId exampleEnv ''tt1'' (Some 1) (Some 1) 0 7
                          exampleSeriesAddon)) \<and>
   searchEpisodeByImdbId exampleEnv ''tt1'' (Some 1) (Some 1) 3600006 3600009
       (snd (searchEpisodeByImdbId exampleEnv ''tt1'' (Some 1) (Some 1) 0 7 exampleSeriesAddon))
     = searchEpisodeByImdbId exampleEnv ''tt1'' (Some 1) (Some 1) 0 7 exampleSeriesAddon"
proof -
  note both = resultCache_keeps_matches_only[of exampleEnv "''tt1''" "Some 1" "Some 1"]
  have movie: "\<not> emptyResult (fst (searchMovieByImdbId exampleEnv ''tt1'' 0 7 exampleAddon)) \<and>
    searchMovieByImdbId exampleEnv ''tt1'' 3600006 3600009
       (snd (searchMovieByImdbId exampleEnv ''tt1'' 0 7 exampleAddon))
     = searchMovieByImdbId exampleEnv ''tt1'' 0 7 exampleAddon"
  proof -
    obtain r s' where run: "searchMovieByImdbId exampleEnv ''tt1'' 0 7 exampleAddon = (r, s')"
      by (cases "searchMovieByImdbId exampleEnv ''tt1'' 0 7 exampleAddon") auto
    have "length (findAllMatches ''Foo'' (Some 2020) exampleLibrary) = 3"
      using arg_cong[OF exampleLibrary_ranking, of length] by simp
    then have ne: "\<not> emptyResult r"
      using exampleAddon_run run by (auto simp: emptyResult_def)
    have "cacheLookup exampleAddon ''tt1'' 0 = None"
      by (simp add: cacheLookup_def exampleAddon_def emptyAddon_def)
    with searchMovieByImdbId_cases[OF run] ne
    have ts: "realTimeCache s' ''tt1'' = Some \<lparr> result = r, timestamp = 7 \<rparr>"
      by auto
    from both run ne
    obtain c where c: "realTimeCache s' ''tt1'' = Some c"
      "\<forall>now' later'. now' - timestamp c < 3600000 \<longrightarrow>
          searchMovieByImdbId exampleEnv ''tt1'' now' later' s' = (r, s')"
      unfolding cachesMatchesOnly_def by blast
    from c ts have "timestamp c = 7"
      by auto
    with c(2) have "searchMovieByImdbId exampleEnv ''tt1'' 3600006 3600009 s' = (r, s')"
      by simp
    with run ne show ?thesis
      by simp
  qed
  have episode: "\<not> emptyResult (fst (searchEpisodeByImdbId exampleEnv ''tt1'' (Some 1) (Some 1) 0 7
                          exampleSeriesAddon)) \<and>
    searchEpisodeByImdbId exampleEnv ''tt1'' (Some 1) (Some 1) 3600006 3600009
       (snd (searchEpisodeByImdbId exampleEnv ''tt1'' (Some 1) (Some 1) 0 7 exampleSeriesAddon))
     = searchEpisodeByImdbId exampleEnv ''tt1'' (Some 1) (Some 1) 0 7 exampleSeriesAddon"
  proof -
    obtain r s' where run:
      "searchEpisodeByImdbId exampleEnv ''tt1'' (Some 1) (Some 1) 0 7 exampleSeriesAddon = (r, s')"
      by (cases "searchEpisodeByImdbId exampleEnv ''tt1'' (Some 1) (Some 1) 0 7 exampleSeriesAddon")
        auto
    have ne: "\<not> emptyResult r"
      using exampleSeriesAddon_run run by simp
    have "cacheLookup exampleSeriesAddon (episodeCacheKey ''tt1'' (Some 1) (Some 1)) 0 = None"
      by (simp add: cacheLookup_def exampleSeriesAddon_def emptyAddon_def)
    with searchEpisodeByImdbId_cases[OF run] ne
    have ts: "realTimeCache s' (episodeCacheKey ''tt1'' (Some 1) (Some 1))
                = Some \<lparr> result = r, timestamp = 7 \<rparr>"
      by auto
    from both run ne
    obtain c where c: "realTimeCache s' (episodeCacheKey ''tt1'' (Some 1) (Some 1)) = Some c"
      "\<forall>now' later'. now' - timestamp c < 3600000 \<longrightarrow>
          searchEpisodeByImdbId exampleEnv ''tt1'' (Some 1) (Some 1) now' later' s' = (r, s')"
      unfolding cachesMatchesOnly_def by blast
    from c ts have "timestamp c = 7"
      by auto
    with c(2)
    have "searchEpisodeByImdbId exampleEnv ''tt1'' (Some 1) (Some 1) 3600006 3600009 s' = (r, s')"
      by simp
    with run ne show ?thesis
      by simp
  qed
  from movie episode show ?thesis
    by blast
qed

section \<open>Title normalizer\<close>

lemma code_char_of: "n < 256 \<Longrightarrow> code (char_of n) = n"
  by (simp add: code_def)

lemma code_lt: "code c < 256"
  by (simp add: code_def)

lemma code_inj: "code c = code d \<Longrightarrow> c = d"
  by (simp add: code_def)

lemma code_toLowerChar:
  "code (toLowerChar c) = (if upperCode (code c) then code c + 32 else code c)"
  using code_lt[of c] by (simp add: toLowerChar_def code_char_of upperCode_def)

lemma upperCode_shift: "upperCode n \<Longrightarrow> \<not> upperCode (n + 32)"
  unfolding upperCode_def by linarith

lemma toLowerChar_idem: "toLowerChar (toLowerChar c) = toLowerChar c"
proof (rule code_inj)
  show "code (toLowerChar (toLowerChar c)) = code (toLowerChar c)"
    by (simp add: code_toLowerChar upperCode_shift)
qed

lemma toLowerChar_word:
  assumes "toLowerChar c = toLowerChar p" "isWord p" shows "isWord c"
proof -
  from assms(1) have e: "code (toLowerChar c) = code (toLowerChar p)" by simp
  show ?thesis
  proof (cases "upperCode (code c)")
    case True
    note uc = this
    show ?thesis
    proof (cases "upperCode (code p)")
      case True
      with uc e have "code c = code p" by (simp add: code_toLowerChar)
      with assms(2) show ?thesis by (simp add: isWord_def)
    next
      case False
      with uc e have "code p = code c + 32" by (simp add: code_toLowerChar)
      with assms(2) uc show ?thesis unfolding isWord_def upperCode_def by linarith
    qed
  next
    case False
    note uc = this
    show ?thesis
    proof (cases "upperCode (code p)")
      case True
      with uc e have "code c = code p + 32" by (simp add: code_toLowerChar)
      with assms(2) True show ?thesis unfolding isWord_def upperCode_def by linarith
    next
      case False
      with uc e have "code c = code p" by (simp add: code_toLowerChar)
      with assms(2) show ?thesis by (simp add: isWord_def)
    qed
  qed
qed

lemma space_not_word: "isSpace c \<Longrightarrow> \<not> isWord c"
  by (auto simp: isSpace_def isWord_def)

lemma wordAt_simps [simp]: "wordAt [] = False" "wordAt (c # cs) = isWord c"
  by (simp_all add: wordAt_def)

lemma wordsOf_word_app:
  "w \<noteq> [] \<Longrightarrow> \<forall>c \<in> set w. isWord c \<Longrightarrow> \<not> wordAt rest \<Longrightarrow> wordsOf (w @ rest) = w # wordsOf rest"
proof (induction w)
  case Nil then show ?case by simp
next
  case (Cons c w)
  show ?case
  proof (cases "w = []")
    case True with Cons.prems show ?thesis by simp
  next
    case False
    then obtain d w' where w: "w = d # w'" by (cases w) auto
    with Cons show ?thesis by simp
  qed
qed

lemma wordsOf_nonword_app:
  "\<forall>c \<in> set u. \<not> isWord c \<Longrightarrow> wordsOf (u @ s) = wordsOf s"
  by (induction u) auto

lemma wordsOf_app_nonword:
  "\<forall>c \<in> set v. \<not> isWord c \<Longrightarrow> wordsOf (u @ v) = wordsOf u"
proof (induction u)
  case Nil then show ?case using wordsOf_nonword_app[of v "[]"] by simp
next
  case (Cons c u)
  have "wordAt (u @ v) = wordAt u" using Cons.prems by (cases u; cases v) auto
  with Cons show ?case by simp
qed

lemma not_wordAt_dropWhile: "\<not> wordAt (dropWhile isWord s)"
  by (induction s) auto

lemma word_split:
  assumes "wordAt s"
  shows "takeWhile isWord s \<noteq> []" "\<forall>c \<in> set (takeWhile isWord s). isWord c"
    "\<not> wordAt (dropWhile isWord s)" "s = takeWhile isWord s @ dropWhile isWord s"
    "length (dropWhile isWord s) < length s"
proof -
  from assms obtain c cs where s: "s = c # cs" "isWord c"
    by (cases s) auto
  show "takeWhile isWord s \<noteq> []" using s by simp
  show "\<forall>c \<in> set (takeWhile isWord s). isWord c" by (auto dest: set_takeWhileD)
  show "\<not> wordAt (dropWhile isWord s)" by (rule not_wordAt_dropWhile)
  show "s = takeWhile isWord s @ dropWhile isWord s" by simp
  have "length (dropWhile isWord cs) \<le> length cs" by (rule length_dropWhile_le)
  then show "length (dropWhile isWord s) < length s" using s by simp
qed

lemma removeMatches_skip:
  "u \<noteq> [] \<Longrightarrow> removeMatches m p (length u) (u @ rest) = removeMatches m (isWord (last u)) 0 rest"
proof (induction u arbitrary: p)
  case Nil then show ?case by simp
next
  case (Cons c u)
  show ?case
  proof (cases "u = []")
    case True then show ?thesis by (cases rest) auto
  next
    case False
    with Cons.IH[OF False, of "isWord c"] show ?thesis by simp
  qed
qed

lemma removeMatches_inword:
  "\<forall>c \<in> set u. isWord c \<Longrightarrow> removeMatches m True 0 (u @ rest) = u @ removeMatches m True 0 rest"
  by (induction u) auto

lemma removeMatches_nonword:
  "wholeWord m V \<Longrightarrow> \<not> wordAt s \<Longrightarrow> removeMatches m True 0 s = removeMatches m False 0 s"
  by (cases s) (auto simp: wholeWord_def)

lemma removeMatches_nonword_hd:
  "\<not> wordAt s \<Longrightarrow> \<not> wordAt (removeMatches m False 0 s)"
  by (cases s) auto

lemma removeMatches_word:
  assumes ww: "wholeWord m V" and w: "w \<noteq> []" "\<forall>c \<in> set w. isWord c" and r: "\<not> wordAt rest"
  shows "removeMatches m False 0 (w @ rest) = (if V w then [] else w) @ removeMatches m False 0 rest"
proof -
  from w obtain c w' where cw: "w = c # w'" "isWord c" by (cases w) auto
  have mm: "m (w @ rest) = (if V w then Some (length w) else None)"
    using ww w r by (simp add: wholeWord_def)
  show ?thesis
  proof (cases "V w")
    case True
    with mm cw have "removeMatches m False 0 (w @ rest) = removeMatches m True (length w') (w' @ rest)"
      by simp
    also have "\<dots> = removeMatches m True 0 rest"
    proof (cases "w' = []")
      case True then show ?thesis by simp
    next
      case False
      then have "isWord (last w')" using w cw by simp
      with removeMatches_skip[OF False, of m True rest] show ?thesis by simp
    qed
    also have "\<dots> = removeMatches m False 0 rest"
      by (rule removeMatches_nonword[OF ww r])
    finally show ?thesis using True by simp
  next
    case False
    with mm cw have "removeMatches m False 0 (w @ rest) = c # removeMatches m True 0 (w' @ rest)"
      by simp
    also have "\<dots> = c # w' @ removeMatches m True 0 rest"
      using removeMatches_inword[of w' m rest] w cw by simp
    also have "removeMatches m True 0 rest = removeMatches m False 0 rest"
      by (rule removeMatches_nonword[OF ww r])
    finally show ?thesis using False cw by simp
  qed
qed

lemma wordsOf_removeMatches:
  assumes ww: "wholeWord m V"
  shows "wordsOf (removeMatches m False 0 s) = filter (\<lambda>w. \<not> V w) (wordsOf s)"
proof (induction s rule: length_induct)
  case (1 s)
  show ?case
  proof (cases "wordAt s")
    case False
    show ?thesis
    proof (cases s)
      case Nil then show ?thesis by simp
    next
      case (Cons c cs)
      with False 1 show ?thesis by simp
    qed
  next
    case True
    let ?w = "takeWhile isWord s" and ?r = "dropWhile isWord s"
    note sp = word_split[OF True]
    have IH: "wordsOf (removeMatches m False 0 ?r) = filter (\<lambda>w. \<not> V w) (wordsOf ?r)"
      using 1 sp(5) by simp
    have a: "removeMatches m False 0 s = (if V ?w then [] else ?w) @ removeMatches m False 0 ?r"
      using removeMatches_word[OF ww sp(1) sp(2) sp(3)] sp(4) by simp
    have b: "wordsOf s = ?w # wordsOf ?r"
      using wordsOf_word_app[OF sp(1) sp(2) sp(3)] sp(4) by simp
    have c: "\<not> wordAt (removeMatches m False 0 ?r)"
      by (rule removeMatches_nonword_hd[OF sp(3)])
    show ?thesis
      unfolding a b using IH wordsOf_word_app[OF sp(1) sp(2) c] by simp
  qed
qed

lemma removeMatches_id:
  assumes ww: "wholeWord m V"
  shows "\<forall>w \<in> set (wordsOf s). \<not> V w \<Longrightarrow> removeMatches m False 0 s = s"
proof (induction s rule: length_induct)
  case (1 s)
  show ?case
  proof (cases "wordAt s")
    case False
    show ?thesis
    proof (cases s)
      case Nil then show ?thesis by simp
    next
      case (Cons c cs)
      with False 1 show ?thesis by simp
    qed
  next
    case True
    let ?w = "takeWhile isWord s" and ?r = "dropWhile isWord s"
    note sp = word_split[OF True]
    have b: "wordsOf s = ?w # wordsOf ?r"
      using wordsOf_word_app[OF sp(1) sp(2) sp(3)] sp(4) by simp
    with "1.prems" have nv: "\<not> V ?w" and rest: "\<forall>w \<in> set (wordsOf ?r). \<not> V w" by simp_all
    have IH: "removeMatches m False 0 ?r = ?r"
      using "1.IH" sp(5) rest by simp
    have a: "removeMatches m False 0 s = (if V ?w then [] else ?w) @ removeMatches m False 0 ?r"
      using removeMatches_word[OF ww sp(1) sp(2) sp(3)] sp(4) by simp
    show ?thesis unfolding a using nv IH by simp
  qed
qed

lemma digit_word: "isDigit c \<Longrightarrow> isWord c"
  by (simp add: isDigit_def isWord_def)

lemma lit_word: "isWord CHR ''1''" "isWord CHR ''9''" "isWord CHR ''2''" "isWord CHR ''0''"
  by (simp_all add: isWord_def code_def)

lemma matchYear_nonword: "\<not> wordAt s \<Longrightarrow> matchYear s = None"
  using lit_word by (auto simp: matchYear_def split: list.splits)

lemma matchYear_word:
  assumes w: "w \<noteq> []" "\<forall>c \<in> set w. isWord c" and r: "\<not> wordAt rest"
  shows "matchYear (w @ rest) = (if yearWord w then Some (length w) else None)"
proof -
  consider a where "w = [a]" | a b where "w = [a, b]" | a b c where "w = [a, b, c]"
    | a b c d where "w = [a, b, c, d]" | a b c d e w' where "w = a # b # c # d # e # w'"
    using w(1) by (cases w rule: list.exhaust[case_product list.exhaust]) (metis list.exhaust)+
  then show ?thesis
  proof cases
    case 1
    then show ?thesis using r lit_word digit_word
      by (cases rest) (auto simp: matchYear_def yearWord_def split: list.splits)
  next
    case 2
    then show ?thesis using r lit_word digit_word
      by (cases rest) (auto simp: matchYear_def yearWord_def split: list.splits)
  next
    case 3
    then show ?thesis using r lit_word digit_word
      by (cases rest) (auto simp: matchYear_def yearWord_def split: list.splits)
  next
    case 4
    then show ?thesis using r w digit_word
      by (auto simp: matchYear_def yearWord_def)
  next
    case 5
    then show ?thesis using w 
      by (auto simp: matchYear_def yearWord_def)
  qed
qed

lemma wholeWord_matchYear: "wholeWord matchYear yearWord"
  unfolding wholeWord_def using matchYear_nonword matchYear_word by blast

lemma prefixCI_length: "prefixCI a s \<Longrightarrow> length a \<le> length s"
  by (induction a s rule: prefixCI.induct) auto

lemma prefixCI_app_short: "length a \<le> length w \<Longrightarrow> prefixCI a (w @ rest) = prefixCI a w"
proof (induction a arbitrary: w)
  case Nil then show ?case by simp
next
  case (Cons p ps)
  then obtain c w' where "w = c # w'" by (cases w) auto
  with Cons show ?case by simp
qed

lemma prefixCI_app_long:
  "length a > length w \<Longrightarrow> \<forall>p \<in> set a. isWord p \<Longrightarrow> \<not> wordAt rest \<Longrightarrow> \<not> prefixCI a (w @ rest)"
proof (induction w arbitrary: a)
  case Nil
  then obtain p ps where a: "a = p # ps" "isWord p" by (cases a) auto
  show ?case
  proof (cases rest)
    case Nil with a show ?thesis by simp
  next
    case (Cons d ds)
    with Nil.prems have "\<not> isWord d" by simp
    with a Cons show ?thesis using toLowerChar_word[of d p] by auto
  qed
next
  case (Cons c w)
  then obtain p ps where a: "a = p # ps" by (cases a) auto
  with Cons show ?case by auto
qed

lemma wordAt_drop_word:
  "\<forall>c \<in> set w. isWord c \<Longrightarrow> n < length w \<Longrightarrow> wordAt (drop n (w @ rest))"
proof -
  assume w: "\<forall>c \<in> set w. isWord c" and n: "n < length w"
  then have "drop n w \<noteq> []" by simp
  then obtain c cs where d: "drop n w = c # cs" by (cases "drop n w") auto
  then have "c \<in> set w" by (metis in_set_dropD list.set_intros(1))
  with w d n show ?thesis by simp
qed

lemma altBody_iff:
  assumes a: "a \<noteq> []" "\<forall>p \<in> set a. isWord p"
    and w: "w \<noteq> []" "\<forall>c \<in> set w. isWord c" and r: "\<not> wordAt rest"
  shows "(prefixCI a (w @ rest) \<and> (wordAt (drop (length a - 1) (w @ rest)) \<noteq> wordAt (drop (length a) (w @ rest))))
         \<longleftrightarrow> (length a = length w \<and> prefixCI a w)"
proof (cases "length a \<le> length w")
  case False
  then show ?thesis using prefixCI_app_long[OF _ a(2) r, of w] by auto
next
  case True
  have la: "length a - 1 < length w" using True a(1) by (cases a) auto
  have b1: "wordAt (drop (length a - 1) (w @ rest))"
    by (rule wordAt_drop_word[OF w(2) la])
  have b2: "wordAt (drop (length a) (w @ rest)) \<longleftrightarrow> length a < length w"
  proof (cases "length a < length w")
    case True then show ?thesis using wordAt_drop_word[OF w(2) True, of rest] by simp
  next
    case False
    with \<open>length a \<le> length w\<close> have "length a = length w" by simp
    then show ?thesis using r by simp
  qed
  show ?thesis using True b1 b2 prefixCI_app_short[OF True, of rest] by auto
qed

lemma matchAlt_nonword:
  assumes g: "goodAlts alts" and s: "\<not> wordAt s"
  shows "matchAlt alts s = None"
proof -
  have "\<And>a. a \<in> set alts \<Longrightarrow> \<not> prefixCI a s"
  proof -
    fix a assume "a \<in> set alts"
    with g have a: "a \<noteq> []" "\<forall>p \<in> set a. isWord p" by (auto simp: goodAlts_def)
    then have "length a > length ([]::string)" by simp
    from prefixCI_app_long[OF this a(2) s] show "\<not> prefixCI a s" by simp
  qed
  then show ?thesis unfolding matchAlt_def by (auto simp: find_None_iff)
qed

lemma matchAlt_word:
  assumes g: "goodAlts alts" and w: "w \<noteq> []" "\<forall>c \<in> set w. isWord c" and r: "\<not> wordAt rest"
  shows "matchAlt alts (w @ rest) = (if altWord alts w then Some (length w) else None)"
proof -
  let ?P = "\<lambda>a. prefixCI a (w @ rest) \<and> (wordAt (drop (length a - 1) (w @ rest)) \<noteq> wordAt (drop (length a) (w @ rest)))"
  have iff: "\<And>a. a \<in> set alts \<Longrightarrow> ?P a \<longleftrightarrow> (length a = length w \<and> prefixCI a w)"
    using g altBody_iff[OF _ _ w r] by (simp add: goodAlts_def)
  show ?thesis
  proof (cases "altWord alts w")
    case True
    then obtain a where "a \<in> set alts" "?P a" using iff by (auto simp: altWord_def)
    then obtain b where b: "find ?P alts = Some b"
      by (cases "find ?P alts") (auto simp: find_None_iff)
    then have "b \<in> set alts" "?P b" by (auto simp: find_Some_iff)
    with iff have "length b = length w" by blast
    with b True show ?thesis by (simp add: matchAlt_def)
  next
    case False
    then have "\<forall>a \<in> set alts. \<not> ?P a" using iff by (auto simp: altWord_def)
    then have "find ?P alts = None" by (simp add: find_None_iff)
    with False show ?thesis by (simp add: matchAlt_def)
  qed
qed

lemma wholeWord_matchAlt: "goodAlts alts \<Longrightarrow> wholeWord (matchAlt alts) (altWord alts)"
  unfolding wholeWord_def using matchAlt_nonword matchAlt_word by blast

lemma goodAlts_lists: "goodAlts qualityWords" "goodAlts languageWords" "goodAlts seriesWords"
  unfolding goodAlts_def qualityWords_def languageWords_def seriesWords_def isWord_def code_def
  by simp_all

lemma isSpace_blank: "isSpace CHR '' ''"
  by (simp add: isSpace_def code_def)

lemma toLowerChar_blank: "toLowerChar CHR '' '' = CHR '' ''"
  by (simp add: toLowerChar_def code_def)

lemma set_removeMatches: "set (removeMatches m p k s) \<subseteq> set s"
  by (induction m p k s rule: removeMatches.induct) (auto split: option.splits nat.splits if_splits)

lemma set_trim: "set (trim s) \<subseteq> set s"
  unfolding trim_def by (auto dest!: set_dropWhileD)

lemma collapseWs_chars:
  "c \<in> set (collapseWs p s) \<Longrightarrow> c = CHR '' '' \<or> (c \<in> set s \<and> \<not> isSpace c)"
  by (induction s arbitrary: p) (auto split: if_splits)

lemma replaceSpecial_chars:
  "c \<in> set (replaceSpecial (toLowerCase x)) \<Longrightarrow> \<not> isSpace c \<Longrightarrow> isWord c \<and> toLowerChar c = c"
  by (auto simp: replaceSpecial_def toLowerCase_def isSpace_blank toLowerChar_idem split: if_splits)

lemma normChar_prepared:
  assumes "c \<in> set (collapseWs p (replaceSpecial (toLowerCase x)))"
  shows "normChar c"
  using collapseWs_chars[OF assms] replaceSpecial_chars[of c x]
  by (auto simp: normChar_def)

lemma strip_end: "t = rev (dropWhile P (rev t)) @ rev (takeWhile P (rev t))"
proof -
  have "rev t = takeWhile P (rev t) @ dropWhile P (rev t)"
    by simp
  then have "rev (rev t) = rev (takeWhile P (rev t) @ dropWhile P (rev t))"
    by (rule arg_cong)
  then show ?thesis
    by (simp only: rev_rev_ident rev_append)
qed

lemma normChar_lower: "normChar c \<Longrightarrow> toLowerChar c = c"
  unfolding normChar_def using toLowerChar_blank by blast

lemma normChar_kept: "normChar c \<Longrightarrow> isWord c \<or> isSpace c"
  unfolding normChar_def using isSpace_blank by blast

lemma toLowerCase_norm: "\<forall>c \<in> set y. normChar c \<Longrightarrow> toLowerCase y = y"
  by (induction y) (simp_all add: toLowerCase_def normChar_lower)

lemma replaceSpecial_norm: "\<forall>c \<in> set y. normChar c \<Longrightarrow> replaceSpecial y = y"
proof (induction y)
  case Nil
  then show ?case by (simp add: replaceSpecial_def)
next
  case (Cons c y)
  then have "isWord c \<or> isSpace c" and "replaceSpecial y = y"
    by (simp_all add: normChar_kept)
  then show ?case
    by (simp add: replaceSpecial_def)
qed

lemma wordsOf_dropWhile_space: "wordsOf (dropWhile isSpace s) = wordsOf s"
  by (induction s) (auto simp: space_not_word)

lemma wordsOf_trim: "wordsOf (trim s) = wordsOf s"
proof -
  let ?t = "dropWhile isSpace s"
  have t: "?t = trim s @ rev (takeWhile isSpace (rev ?t))"
    using strip_end[of ?t isSpace] by (simp add: trim_def)
  have "\<forall>c \<in> set (rev (takeWhile isSpace (rev ?t))). \<not> isWord c"
    by (auto dest!: set_takeWhileD simp: space_not_word)
  from wordsOf_app_nonword[OF this, of "trim s"] t have "wordsOf ?t = wordsOf (trim s)"
    by simp
  then show ?thesis
    by (simp add: wordsOf_dropWhile_space)
qed

lemma wordAt_collapseWs: "wordAt (collapseWs False s) = wordAt s"
  by (cases s) (auto simp: space_not_word isSpace_blank)

lemma wordsOf_collapseWs: "wordsOf (collapseWs p s) = wordsOf s"
proof (induction s arbitrary: p)
  case Nil then show ?case by simp
next
  case (Cons c cs)
  show ?case
  proof (cases "isSpace c")
    case True
    then show ?thesis using Cons space_not_word[OF True] space_not_word[OF isSpace_blank] by simp
  next
    case False
    then show ?thesis using Cons wordAt_collapseWs[of cs] by simp
  qed
qed

lemma trim_id: "s = [] \<or> (\<not> isSpace (hd s) \<and> \<not> isSpace (last s)) \<Longrightarrow> trim s = s"
proof (cases s)
  case Nil
  then show ?thesis by (simp add: trim_def)
next
  case (Cons c cs)
  assume "s = [] \<or> (\<not> isSpace (hd s) \<and> \<not> isSpace (last s))"
  with Cons have h: "\<not> isSpace c" and l: "\<not> isSpace (last s)"
    by auto
  from h Cons have 1: "dropWhile isSpace s = s"
    by simp
  have "s \<noteq> []" using Cons by simp
  then have "hd (rev s) = last s" by (simp add: hd_rev)
  with l have "\<not> isSpace (hd (rev s))" by simp
  moreover have "rev s \<noteq> []" using Cons by simp
  ultimately have 2: "dropWhile isSpace (rev s) = rev s"
    by (cases "rev s") auto
  show ?thesis
    by (simp add: trim_def 1 2)
qed

lemma trim_ends: "trim s = [] \<or> (\<not> isSpace (hd (trim s)) \<and> \<not> isSpace (last (trim s)))"
proof (cases "trim s = []")
  case True
  then show ?thesis by simp
next
  case False
  let ?t = "dropWhile isSpace s"
  let ?u = "dropWhile isSpace (rev ?t)"
  have tu: "trim s = rev ?u"
    by (simp add: trim_def)
  with False have une: "?u \<noteq> []"
    by simp
  then have "\<not> isSpace (hd ?u)"
    by (rule hd_dropWhile)
  moreover have "last (rev ?u) = hd ?u"
    using une by (simp add: last_rev)
  ultimately have l: "\<not> isSpace (last (trim s))"
    by (simp add: tu)
  have "\<And>xs. dropWhile isSpace (rev xs) \<noteq> [] \<Longrightarrow> xs \<noteq> []"
    by auto
  from this[OF une] have tne: "?t \<noteq> []" .
  then have ht: "\<not> isSpace (hd ?t)"
    by (rule hd_dropWhile)
  have "?t = trim s @ rev (takeWhile isSpace (rev ?t))"
    using strip_end[of ?t isSpace] by (simp add: trim_def)
  then have "hd ?t = hd (trim s @ rev (takeWhile isSpace (rev ?t)))"
    by simp
  also have "\<dots> = hd (trim s)"
    using False by simp
  finally have "\<not> isSpace (hd (trim s))"
    using ht by simp
  with l show ?thesis
    by simp
qed

lemma collapseWs_idem:
  "collapseWs True (collapseWs True s) = collapseWs True s \<and>
   (\<forall>p. collapseWs False (collapseWs p s) = collapseWs p s)"
  by (induction s) (auto simp: isSpace_blank)

lemma collapseWs_last:
  "s \<noteq> [] \<Longrightarrow> \<not> isSpace (last s) \<Longrightarrow> collapseWs p s \<noteq> [] \<and> last (collapseWs p s) = last s"
proof (induction s arbitrary: p)
  case Nil then show ?case by simp
next
  case (Cons c cs)
  show ?case
  proof (cases "cs = []")
    case True with Cons.prems show ?thesis by simp
  next
    case False
    with Cons.prems have "\<not> isSpace (last cs)" by simp
    from Cons.IH[OF False this] False show ?thesis by auto
  qed
qed

lemma collapseWs_hd:
  "s \<noteq> [] \<Longrightarrow> \<not> isSpace (hd s) \<Longrightarrow> hd (collapseWs p s) = hd s"
  by (cases s) auto

lemma trim_collapseWs:
  assumes "y = [] \<or> (\<not> isSpace (hd y) \<and> \<not> isSpace (last y))"
  shows "trim (collapseWs False y) = collapseWs False y"
proof (cases "y = []")
  case True then show ?thesis by (simp add: trim_def)
next
  case False
  with assms have h: "\<not> isSpace (hd y)" and l: "\<not> isSpace (last y)" by auto
  from collapseWs_last[OF False l, of False] collapseWs_hd[OF False h, of False] h l
  show ?thesis by (intro trim_id) auto
qed

lemma removeWords_words:
  "goodAlts alts \<Longrightarrow> wordsOf (removeWords alts s) = filter (\<lambda>w. \<not> altWord alts w) (wordsOf s)"
  unfolding removeWords_def by (rule wordsOf_removeMatches[OF wholeWord_matchAlt])

lemma removeYears_words: "wordsOf (removeYears s) = filter (\<lambda>w. \<not> yearWord w) (wordsOf s)"
  unfolding removeYears_def by (rule wordsOf_removeMatches[OF wholeWord_matchYear])

lemma removeWords_id:
  "goodAlts alts \<Longrightarrow> \<forall>w \<in> set (wordsOf s). \<not> altWord alts w \<Longrightarrow> removeWords alts s = s"
  unfolding removeWords_def by (rule removeMatches_id[OF wholeWord_matchAlt])

lemma removeYears_id: "\<forall>w \<in> set (wordsOf s). \<not> yearWord w \<Longrightarrow> removeYears s = s"
  unfolding removeYears_def by (rule removeMatches_id[OF wholeWord_matchYear])

lemma set_removeWords: "set (removeWords alts s) \<subseteq> set s"
  unfolding removeWords_def by (rule set_removeMatches)

lemma set_removeYears: "set (removeYears s) \<subseteq> set s"
  unfolding removeYears_def by (rule set_removeMatches)

lemma normalizeTitle_stripTokens:
  "normalizeTitle t = (if t = [] then [] else stripTokens (collapseWs False (replaceSpecial (toLowerCase t))))"
  by (simp add: normalizeTitle_def stripTokens_def)

lemma stripTokens_words:
  "wordsOf (stripTokens z) =
     filter (\<lambda>w. \<not> altWord seriesWords w) (filter (\<lambda>w. \<not> altWord languageWords w)
       (filter (\<lambda>w. \<not> altWord qualityWords w) (filter (\<lambda>w. \<not> yearWord w) (wordsOf z))))"
  by (simp only: stripTokens_def wordsOf_trim removeWords_words[OF goodAlts_lists(1)]
      removeWords_words[OF goodAlts_lists(2)] removeWords_words[OF goodAlts_lists(3)] removeYears_words)

lemma stripTokens_set: "set (stripTokens z) \<subseteq> set z"
  unfolding stripTokens_def
  using set_trim set_removeWords set_removeYears by (meson subset_trans)

lemma stripTokens_clean:
  assumes free: "\<forall>w \<in> set (wordsOf u). \<not> yearWord w \<and> \<not> altWord qualityWords w
                   \<and> \<not> altWord languageWords w \<and> \<not> altWord seriesWords w"
  shows "stripTokens u = trim u"
proof -
  have 1: "removeYears u = u" using free by (intro removeYears_id) simp
  have 2: "removeWords qualityWords u = u" using free by (intro removeWords_id goodAlts_lists) simp
  have 3: "removeWords languageWords u = u" using free by (intro removeWords_id goodAlts_lists) simp
  have 4: "removeWords seriesWords u = u" using free by (intro removeWords_id goodAlts_lists) simp
  show ?thesis by (simp add: stripTokens_def 1 2 3 4)
qed

lemma collapseWs_no_gap:
  "\<forall>c \<in> set y. normChar c \<Longrightarrow> \<not> sublist ''  '' y \<Longrightarrow>
   (p \<longrightarrow> \<not> prefix '' '' y) \<Longrightarrow> collapseWs p y = y"
proof (induction y arbitrary: p)
  case Nil
  then show ?case by simp
next
  case (Cons c cs)
  from Cons.prems(2) have nosub: "\<not> sublist ''  '' cs" and nopre: "\<not> prefix ''  '' (c # cs)"
    by (simp_all add: sublist_Cons_right)
  have chars: "\<forall>c \<in> set cs. normChar c"
    using Cons.prems(1) by simp
  show ?case
  proof (cases "isSpace c")
    case True
    with Cons.prems(1) have c: "c = CHR '' ''"
      using space_not_word[OF True] by (auto simp: normChar_def)
    with Cons.prems(3) have p: "\<not> p"
      by auto
    have "\<not> prefix '' '' cs"
      using nopre c by simp
    from Cons.IH[OF chars nosub, of True] this have "collapseWs True cs = cs"
      by simp
    with True p c show ?thesis
      by simp
  next
    case False
    from Cons.IH[OF chars nosub, of False] have "collapseWs False cs = cs"
      by simp
    with False show ?thesis
      by simp
  qed
qed

lemma normalizeTitle_chars: "\<forall>c \<in> set (normalizeTitle x). normChar c"
proof (cases "x = []")
  case True
  then show ?thesis by (simp add: normalizeTitle_def)
next
  case False
  then show ?thesis
    using stripTokens_set[of "collapseWs False (replaceSpecial (toLowerCase x))"]
      normChar_prepared[of _ False x]
    by (auto simp: normalizeTitle_stripTokens)
qed

lemma normalizeTitle_collapse:
  "normalizeTitle (normalizeTitle x) = collapseWs False (normalizeTitle x)"
proof (cases "normalizeTitle x = []")
  case True
  then show ?thesis by (simp add: normalizeTitle_def)
next
  case False
  let ?z = "collapseWs False (replaceSpecial (toLowerCase x))"
  let ?y = "normalizeTitle x"
  from False have y: "?y = stripTokens ?z"
    by (simp add: normalizeTitle_stripTokens split: if_splits)
  have chars: "\<forall>c \<in> set ?y. normChar c"
    by (rule normalizeTitle_chars)
  have ends: "?y = [] \<or> (\<not> isSpace (hd ?y) \<and> \<not> isSpace (last ?y))"
    unfolding y stripTokens_def by (rule trim_ends)
  have free: "\<forall>w \<in> set (wordsOf (collapseWs False ?y)).
                \<not> yearWord w \<and> \<not> altWord qualityWords w
                \<and> \<not> altWord languageWords w \<and> \<not> altWord seriesWords w"
    unfolding wordsOf_collapseWs y stripTokens_words by simp
  have "normalizeTitle ?y = stripTokens (collapseWs False (replaceSpecial (toLowerCase ?y)))"
    using False by (simp add: normalizeTitle_stripTokens)
  also have "\<dots> = stripTokens (collapseWs False ?y)"
    by (simp add: toLowerCase_norm[OF chars] replaceSpecial_norm[OF chars])
  also have "\<dots> = trim (collapseWs False ?y)"
    by (rule stripTokens_clean[OF free])
  also have "\<dots> = collapseWs False ?y"
    by (rule trim_collapseWs[OF ends])
  finally show ?thesis .
qed

text \<open>
  C4 as stated fails: removing the year from \<^verbatim>\<open>"a 2020 b"\<close> leaves two spaces, which
  a second normalization collapses.
\<close>

theorem normalizeTitle_idempotent_counterexample:
  "normalizeTitle ''a 2020 b'' = ''a  b'' \<and>
   normalizeTitle (normalizeTitle ''a 2020 b'') = ''a b'' \<and>
   normalizeTitle (normalizeTitle ''a 2020 b'') \<noteq> normalizeTitle ''a 2020 b''"
  by code_simp

text \<open>
  C4, amended. Normalizing a normalized title collapses its runs of spaces and does
  nothing else. So normalization is idempotent at every title whose normal form has no
  two consecutive spaces, and the normal form of a normal form is a fixed point.
\<close>

theorem normalizeTitle_twice:
  "normalizeTitle (normalizeTitle x) = collapseWs False (normalizeTitle x) \<and>
   (\<not> sublist ''  '' (normalizeTitle x) \<longrightarrow>
      normalizeTitle (normalizeTitle x) = normalizeTitle x) \<and>
   normalizeTitle (normalizeTitle (normalizeTitle x)) = normalizeTitle (normalizeTitle x)"
proof (intro conjI impI)
  show "normalizeTitle (normalizeTitle x) = collapseWs False (normalizeTitle x)"
    by (rule normalizeTitle_collapse)
next
  assume "\<not> sublist ''  '' (normalizeTitle x)"
  from collapseWs_no_gap[OF normalizeTitle_chars this, of False]
  show "normalizeTitle (normalizeTitle x) = normalizeTitle x"
    by (simp add: normalizeTitle_collapse)
next
  have "normalizeTitle (normalizeTitle (normalizeTitle x))
          = collapseWs False (normalizeTitle (normalizeTitle x))"
    by (rule normalizeTitle_collapse)
  also have "\<dots> = collapseWs False (collapseWs False (normalizeTitle x))"
    by (simp only: normalizeTitle_collapse[of x])
  also have "\<dots> = collapseWs False (normalizeTitle x)"
    using collapseWs_idem[of "normalizeTitle x"] by blast
  also have "\<dots> = normalizeTitle (normalizeTitle x)"
    by (simp only: normalizeTitle_collapse[of x])
  finally show "normalizeTitle (normalizeTitle (normalizeTitle x)) = normalizeTitle (normalizeTitle x)" .
qed

theorem normalizeTitle_twice_witness:
  "\<not> sublist ''  '' (normalizeTitle ''Foo (2020) HD'') \<and>
   normalizeTitle ''Foo (2020) HD'' = ''foo'' \<and>
   normalizeTitle (normalizeTitle ''Foo (2020) HD'') = normalizeTitle ''Foo (2020) HD''"
proof -
  have v: "normalizeTitle ''Foo (2020) HD'' = ''foo''"
    by code_simp
  have n: "\<not> sublist ''  '' (normalizeTitle ''Foo (2020) HD'')"
    unfolding v by code_simp
  from n v normalizeTitle_twice[of "''Foo (2020) HD''"] show ?thesis
    by blast
qed

end
